(* ===== verification/Prelude.thy ===== *)
theory Prelude
  imports Main
begin

text \<open>
  Shared vocabulary of the development: the Python exceptions the two scripts can
  raise, the result type \<open>'a res\<close> (an exception or a value), the sequencing
  combinator \<open>rbind\<close> that stops at the first exception as the interpreter does, and
  Python's list indexing and item assignment, which raise \<open>IndexError\<close> out of range
  where HOL's \<open>nth\<close> and \<open>list_update\<close> would silently return something.
\<close>

named_theorems res_simps "rewrite rules that evaluate the exception-or-value results"

datatype py_error =
    IndexError
  | ValueError
  | NameError
  | AssertionError
  | ZeroDivisionError
  | StatisticsError
  | OverflowError
  | AttributeError
  | KeyError
  | SystemExit string

type_synonym 'a res = "py_error + 'a"

definition rbind :: "'a res \<Rightarrow> ('a \<Rightarrow> 'b res) \<Rightarrow> 'b res" where
  "rbind m f = (case m of Inl e \<Rightarrow> Inl e | Inr a \<Rightarrow> f a)"

definition py_assert :: "bool \<Rightarrow> unit res" where
  "py_assert b = (if b then Inr () else Inl AssertionError)"

text \<open>\<open>xs[i]\<close> for a non-negative index, and \<open>xs[i] = v\<close>; both raise out of range.\<close>

definition py_index :: "'a list \<Rightarrow> nat \<Rightarrow> 'a res" where
  "py_index xs i = (if i < length xs then Inr (xs ! i) else Inl IndexError)"

definition py_list_set :: "'a list \<Rightarrow> nat \<Rightarrow> 'a \<Rightarrow> 'a list res" where
  "py_list_set xs i v = (if i < length xs then Inr (xs[i := v]) else Inl IndexError)"

text \<open>\<open>xs[i] += 1\<close> on a list of counters.\<close>

definition py_incr :: "nat list \<Rightarrow> nat \<Rightarrow> nat list res" where
  "py_incr xs i = rbind (py_index xs i) (\<lambda>x. py_list_set xs i (Suc x))"

lemma rbind_Inl [simp]: "rbind (Inl e) f = Inl e"
  by (simp add: rbind_def)

lemma rbind_Inr [simp]: "rbind (Inr a) f = f a"
  by (simp add: rbind_def)

lemma rbind_eq_Inr [res_simps]:
  "rbind m f = Inr b \<longleftrightarrow> (\<exists>a. m = Inr a \<and> f a = Inr b)"
  by (cases m) auto

lemma rbind_eq_Inl [res_simps]:
  "rbind m f = Inl e \<longleftrightarrow> m = Inl e \<or> (\<exists>a. m = Inr a \<and> f a = Inl e)"
  by (cases m) auto

lemma py_assert_simps [simp]:
  "py_assert True = Inr ()" "py_assert False = Inl AssertionError"
  by (simp_all add: py_assert_def)

lemma py_index_in [simp]: "i < length xs \<Longrightarrow> py_index xs i = Inr (xs ! i)"
  by (simp add: py_index_def)

lemma py_index_out [simp]: "\<not> i < length xs \<Longrightarrow> py_index xs i = Inl IndexError"
  by (simp add: py_index_def)

lemma py_list_set_in [simp]: "i < length xs \<Longrightarrow> py_list_set xs i v = Inr (xs[i := v])"
  by (simp add: py_list_set_def)

lemma py_list_set_out [simp]: "\<not> i < length xs \<Longrightarrow> py_list_set xs i v = Inl IndexError"
  by (simp add: py_list_set_def)

lemma py_incr_in [simp]:
  "i < length xs \<Longrightarrow> py_incr xs i = Inr (xs[i := Suc (xs ! i)])"
  by (simp add: py_incr_def)

lemma py_incr_out [simp]: "\<not> i < length xs \<Longrightarrow> py_incr xs i = Inl IndexError"
  by (simp add: py_incr_def)

lemma py_index_eq_Inr [res_simps]: "py_index xs i = Inr x \<longleftrightarrow> i < length xs \<and> x = xs ! i"
  by (auto simp: py_index_def)

lemma py_list_set_eq_Inr [res_simps]:
  "py_list_set xs i v = Inr ys \<longleftrightarrow> i < length xs \<and> ys = xs[i := v]"
  by (auto simp: py_list_set_def)

lemma py_incr_eq_Inr [res_simps]:
  "py_incr xs i = Inr ys \<longleftrightarrow> i < length xs \<and> ys = xs[i := Suc (xs ! i)]"
  by (auto simp: py_incr_def res_simps)

lemma map_sum_eq_Inr [res_simps]:
  "map_sum f g m = Inr b \<longleftrightarrow> (\<exists>a. m = Inr a \<and> b = g a)"
  by (cases m) auto

lemma map_sum_eq_Inl [res_simps]:
  "map_sum f g m = Inl e \<longleftrightarrow> (\<exists>e'. m = Inl e' \<and> e = f e')"
  by (cases m) auto

end
