(* ===== verification/PyStr.thy ===== *)
theory PyStr
  imports Prelude
begin

text \<open>
  The Python string operations both scripts are built from, over \<open>string\<close>
  (a list of byte characters): \<open>str.split(sep)\<close>, \<open>sep.join\<close>,
  \<open>str.strip(chars)\<close>, \<open>str.rstrip(chars)\<close>, \<open>str.startswith\<close>,
  \<open>str.isnumeric\<close>, \<open>int(str)\<close> and \<open>str(int)\<close>. Characters beyond ASCII
  are not modelled as digits or white space: the inputs are ASCII text files.
\<close>

subsection \<open>Splitting and joining\<close>

text \<open>\<open>s.split(c)\<close>: the pieces between the separators, never an empty list.\<close>

fun py_split :: "char \<Rightarrow> string \<Rightarrow> string list" where
  "py_split c [] = [[]]"
| "py_split c (x # xs) =
     (if x = c then [] # py_split c xs
      else (let r = py_split c xs in (x # hd r) # tl r))"

text \<open>\<open>c.join(ws)\<close>.\<close>

fun py_join :: "char \<Rightarrow> string list \<Rightarrow> string" where
  "py_join c [] = []"
| "py_join c [w] = w"
| "py_join c (w # ws) = w @ c # py_join c ws"

subsection \<open>Stripping and prefixes\<close>

definition py_lstrip :: "char list \<Rightarrow> string \<Rightarrow> string" where
  "py_lstrip cs s = dropWhile (\<lambda>c. c \<in> set cs) s"

definition py_rstrip :: "char list \<Rightarrow> string \<Rightarrow> string" where
  "py_rstrip cs s = rev (dropWhile (\<lambda>c. c \<in> set cs) (rev s))"

definition py_strip :: "char list \<Rightarrow> string \<Rightarrow> string" where
  "py_strip cs s = py_rstrip cs (py_lstrip cs s)"

definition py_startswith :: "string \<Rightarrow> string \<Rightarrow> bool" where
  "py_startswith p s \<longleftrightarrow> take (length p) s = p"

text \<open>The characters \<open>str.isspace\<close> accepts among ASCII: space, \<open>\t \n \v \f \r\<close> and
  the four separators \<open>\x1c\<close> to \<open>\x1f\<close>.\<close>

definition py_whitespace :: "char list" where
  "py_whitespace = [CHR 0x20, CHR 0x09, CHR 0x0A, CHR 0x0B, CHR 0x0C, CHR 0x0D,
                    CHR 0x1C, CHR 0x1D, CHR 0x1E, CHR 0x1F]"

subsection \<open>Digits, \<open>isnumeric\<close>, \<open>int()\<close> and \<open>str()\<close>\<close>

definition is_digit :: "char \<Rightarrow> bool" where
  "is_digit c \<longleftrightarrow> 48 \<le> (of_char c :: nat) \<and> (of_char c :: nat) \<le> 57"

definition digit_val :: "char \<Rightarrow> nat" where
  "digit_val c = of_char c - 48"

definition digit_char :: "nat \<Rightarrow> char" where
  "digit_char d = char_of (48 + d)"

definition py_isnumeric :: "string \<Rightarrow> bool" where
  "py_isnumeric s \<longleftrightarrow> s \<noteq> [] \<and> list_all is_digit s"

definition digits_val :: "string \<Rightarrow> nat" where
  "digits_val s = foldl (\<lambda>n c. 10 * n + digit_val c) 0 s"

text \<open>Python's \<open>int()\<close> accepts single underscores between digits (\<open>1_000\<close>).\<close>

fun underscores_ok :: "string \<Rightarrow> bool" where
  "underscores_ok [] = True"
| "underscores_ok (c # cs) =
     (if c = CHR ''_'' then (case cs of [] \<Rightarrow> False | d # _ \<Rightarrow> is_digit d) \<and> underscores_ok cs
      else is_digit c \<and> underscores_ok cs)"

definition digit_group :: "string \<Rightarrow> bool" where
  "digit_group s \<longleftrightarrow> s \<noteq> [] \<and> is_digit (hd s) \<and> underscores_ok s"

definition group_val :: "string \<Rightarrow> nat" where
  "group_val s = digits_val (filter (\<lambda>c. c \<noteq> CHR ''_'') s)"

text \<open>\<open>int(s)\<close> in base 10: surrounding white space, an optional sign, a digit group.\<close>

definition py_int :: "string \<Rightarrow> int res" where
  "py_int s =
     (case py_strip py_whitespace s of
        [] \<Rightarrow> Inl ValueError
      | c # r \<Rightarrow>
          (if c = CHR ''-'' \<and> digit_group r then Inr (- int (group_val r))
           else if c = CHR ''+'' \<and> digit_group r then Inr (int (group_val r))
           else if digit_group (c # r) then Inr (int (group_val (c # r)))
           else Inl ValueError))"

fun str_nat :: "nat \<Rightarrow> string" where
  "str_nat n = (if n < 10 then [digit_char n] else str_nat (n div 10) @ [digit_char (n mod 10)])"

declare str_nat.simps [simp del]

definition str_int :: "int \<Rightarrow> string" where
  "str_int i = (if i < 0 then CHR ''-'' # str_nat (nat (- i)) else str_nat (nat i))"

subsection \<open>Lemmas: split and join\<close>

lemma py_split_not_Nil [simp]: "py_split c s \<noteq> []"
  by (induction s) (simp_all add: Let_def)

lemma py_join_Cons: "py_join c (w # ws) = w @ (if ws = [] then [] else c # py_join c ws)"
  by (cases ws) simp_all

text \<open>Joining the pieces of a split gives the string back.\<close>

lemma py_join_split: "py_join c (py_split c s) = s"
proof (induction s)
  case Nil
  then show ?case by simp
next
  case (Cons x xs)
  let ?r = "py_split c xs"
  have r: "?r = hd ?r # tl ?r" by simp
  show ?case
  proof (cases "x = c")
    case True
    with Cons.IH show ?thesis by (simp add: py_join_Cons)
  next
    case False
    have "py_join c ?r = hd ?r @ (if tl ?r = [] then [] else c # py_join c (tl ?r))"
      by (subst r) (rule py_join_Cons)
    with False Cons.IH show ?thesis by (simp add: Let_def py_join_Cons)
  qed
qed

lemma py_split_no_sep: "c \<notin> set w \<Longrightarrow> py_split c w = [w]"
  by (induction w) (auto simp: Let_def)

lemma py_split_append_sep:
  "c \<notin> set w \<Longrightarrow> py_split c (w @ c # s) = w # py_split c s"
  by (induction w) (auto simp: Let_def)

text \<open>Splitting a join of separator-free pieces gives the pieces back.\<close>

lemma py_split_join:
  "ws \<noteq> [] \<Longrightarrow> (\<forall>w \<in> set ws. c \<notin> set w) \<Longrightarrow> py_split c (py_join c ws) = ws"
proof (induction ws rule: py_join.induct)
  case (3 c w v vs)
  then show ?case by (simp add: py_split_append_sep)
qed (simp_all add: py_split_no_sep)

subsection \<open>Lemmas: digits and the \<open>int\<close>/\<open>str\<close> round trip\<close>

lemma digits_val_snoc [simp]: "digits_val (s @ [c]) = 10 * digits_val s + digit_val c"
  by (simp add: digits_val_def)

lemma is_digit_digit_char [simp]: "d < 10 \<Longrightarrow> is_digit (digit_char d)"
  by (simp add: is_digit_def digit_char_def)

lemma digit_val_digit_char [simp]: "d < 10 \<Longrightarrow> digit_val (digit_char d) = d"
  by (simp add: digit_val_def digit_char_def)

lemma is_digit_not_special [simp]:
  "\<not> is_digit CHR ''_''" "\<not> is_digit CHR ''-''" "\<not> is_digit CHR ''+''" "\<not> is_digit CHR ''.''"
  by (simp_all add: is_digit_def)

lemma digit_not_whitespace: "is_digit c \<Longrightarrow> c \<notin> set py_whitespace"
  by (auto simp: is_digit_def py_whitespace_def)

lemma str_nat_not_Nil [simp]: "str_nat n \<noteq> []"
  by (subst str_nat.simps) simp

lemma str_nat_digits: "list_all is_digit (str_nat n)"
proof (induction n rule: str_nat.induct)
  case (1 n)
  then show ?case by (subst str_nat.simps) simp
qed

lemma digits_val_str_nat [simp]: "digits_val (str_nat n) = n"
proof (induction n rule: str_nat.induct)
  case (1 n)
  show ?case
  proof (cases "n < 10")
    case True
    then show ?thesis by (subst str_nat.simps) (simp add: digits_val_def)
  next
    case False
    with "1.IH" show ?thesis by (subst str_nat.simps) simp
  qed
qed

lemma underscores_ok_digits: "list_all is_digit s \<Longrightarrow> underscores_ok s"
  by (induction s) (auto simp: is_digit_def)

lemma digit_group_digits:
  "s \<noteq> [] \<Longrightarrow> list_all is_digit s \<Longrightarrow> digit_group s"
  unfolding digit_group_def using underscores_ok_digits [of s] hd_in_set [of s]
  by (auto simp: list_all_iff)

lemma group_val_digits: "list_all is_digit s \<Longrightarrow> group_val s = digits_val s"
proof -
  assume "list_all is_digit s"
  then have "filter (\<lambda>c. c \<noteq> CHR ''_'') s = s"
    by (induction s) auto
  then show ?thesis by (simp add: group_val_def)
qed

lemma py_strip_id:
  "s \<noteq> [] \<Longrightarrow> hd s \<notin> set cs \<Longrightarrow> last s \<notin> set cs \<Longrightarrow> py_strip cs s = s"
proof -
  assume s: "s \<noteq> []" and h: "hd s \<notin> set cs" and l: "last s \<notin> set cs"
  from s h have "py_lstrip cs s = s" by (cases s) (simp_all add: py_lstrip_def)
  moreover from s l have "dropWhile (\<lambda>c. c \<in> set cs) (rev s) = rev s"
    by (cases "rev s") (simp_all add: last_rev [symmetric])
  ultimately show ?thesis by (simp add: py_strip_def py_rstrip_def)
qed

lemma hd_last_str_nat: "is_digit (hd (str_nat n)) \<and> is_digit (last (str_nat n))"
proof -
  have ne: "str_nat n \<noteq> []" by simp
  have "\<forall>x \<in> set (str_nat n). is_digit x"
    using str_nat_digits [of n] by (simp add: list_all_iff)
  then show ?thesis using hd_in_set [OF ne] last_in_set [OF ne] by blast
qed

lemma digit_group_str_nat [simp]: "digit_group (str_nat n)"
  by (simp add: digit_group_digits str_nat_digits)

lemma group_val_str_nat [simp]: "group_val (str_nat n) = n"
  by (simp add: group_val_digits str_nat_digits)

lemma py_strip_str_int [simp]: "py_strip py_whitespace (str_int i) = str_int i"
  using hd_last_str_nat [of "nat (- i)"] hd_last_str_nat [of "nat i"]
  by (auto simp: str_int_def py_whitespace_def intro!: py_strip_id dest!: digit_not_whitespace)

lemma str_nat_hd_not_sign: "hd (str_nat n) \<noteq> CHR ''-'' \<and> hd (str_nat n) \<noteq> CHR ''+''"
  using hd_last_str_nat [of n] by auto

lemma no_underscore_str_int: "CHR ''_'' \<notin> set (str_int i)"
proof -
  have "\<And>n. CHR ''_'' \<notin> set (str_nat n)"
    using str_nat_digits by (fastforce simp: list_all_iff)
  then show ?thesis by (simp add: str_int_def)
qed

text \<open>Python's \<open>int(str(i)) == i\<close>.\<close>

lemma py_int_str_int [simp]: "py_int (str_int i) = Inr i"
proof (cases "i < 0")
  case True
  then show ?thesis unfolding py_int_def py_strip_str_int by (simp add: str_int_def)
next
  case False
  obtain c r where cr: "str_nat (nat i) = c # r" by (cases "str_nat (nat i)") auto
  from str_nat_hd_not_sign [of "nat i"] cr have "c \<noteq> CHR ''-''" "c \<noteq> CHR ''+''" by auto
  moreover have "digit_group (c # r)" "group_val (c # r) = nat i"
    using digit_group_str_nat [of "nat i"] group_val_str_nat [of "nat i"] cr by simp_all
  ultimately show ?thesis
    using False cr unfolding py_int_def py_strip_str_int by (simp add: str_int_def)
qed

text \<open>On a string of ASCII digits \<open>int()\<close> succeeds with the decimal value.\<close>

lemma py_int_numeric:
  assumes "py_isnumeric a"
  shows "py_int a = Inr (int (digits_val a))"
proof -
  from assms obtain c r where a: "a = c # r" and d: "is_digit c" "list_all is_digit r"
    by (cases a) (auto simp: py_isnumeric_def)
  have "\<forall>x \<in> set a. is_digit x" using d a by (simp add: list_all_iff)
  then have "hd a \<notin> set py_whitespace" "last a \<notin> set py_whitespace"
    using a by (simp_all add: digit_not_whitespace)
  then have "py_strip py_whitespace a = a" using a by (simp add: py_strip_id)
  moreover have "c \<noteq> CHR ''-''" "c \<noteq> CHR ''+''" using d(1) by (auto simp: is_digit_def)
  moreover have "digit_group a" "group_val a = digits_val a"
    using d a by (simp_all add: digit_group_digits group_val_digits)
  ultimately show ?thesis using a by (simp add: py_int_def)
qed

lemma py_isnumeric_str_nat [simp]: "py_isnumeric (str_nat n)"
  by (simp add: py_isnumeric_def str_nat_digits)

lemma py_int_str_nat [simp]: "py_int (str_nat n) = Inr (int n)"
  by (simp add: py_int_numeric)

lemma str_nat_no_char:
  "\<not> is_digit x \<Longrightarrow> x \<notin> set (str_nat n)"
  using str_nat_digits [of n] by (auto simp: list_all_iff)

lemma not_numeric_dot [simp]: "\<not> py_isnumeric ''.''"
  by (simp add: py_isnumeric_def)

lemma py_rstrip_all: "set s \<subseteq> set cs \<Longrightarrow> py_rstrip cs s = []"
  by (simp add: py_rstrip_def dropWhile_eq_Nil_conv subset_iff)

end
