(* ===== verification/Genotype.thy ===== *)
theory Genotype
  imports PyStr
begin

text \<open>
  The genotype normaliser and the two classifiers of
  \<^verbatim>\<open>src/calculate_idnv_obs_het.py\<close>: \<open>simplify_genotype_str\<close> (lines 33--54),
  \<open>is_genotype_missing\<close> (56--69) and \<open>is_indv_heterozygous\<close> (71--87).
  A genotype is the Python list \<open>indv_genos\<close>: allele indices or \<open>None\<close>.
\<close>

type_synonym genotype = "int option list"

text \<open>The loop \<open>for i in range(len(alleles))\<close>: a numeric allele is stored at
  index \<open>i\<close> of \<open>indv_genos\<close>, which has two slots, so a third numeric allele
  raises \<open>IndexError\<close>; a non-numeric one leaves the slot \<open>None\<close>.\<close>

fun fill_alleles :: "nat \<Rightarrow> string list \<Rightarrow> genotype \<Rightarrow> genotype res" where
  "fill_alleles i [] g = Inr g"
| "fill_alleles i (a # as) g =
     (if py_isnumeric a
      then rbind (py_int a) (\<lambda>v. rbind (py_list_set g i (Some v)) (\<lambda>g'. fill_alleles (Suc i) as g'))
      else fill_alleles (Suc i) as g)"

text \<open>With neither separator in the genotype, \<open>alleles\<close> is never bound and the
  loop raises \<open>NameError\<close>.\<close>

definition simplify_genotype_str :: "string \<Rightarrow> genotype res" where
  "simplify_genotype_str genotype_field =
     (let genotype = hd (py_split CHR '':'' genotype_field) in
      if CHR ''/'' \<in> set genotype then fill_alleles 0 (py_split CHR ''/'' genotype) [None, None]
      else if CHR ''|'' \<in> set genotype then fill_alleles 0 (py_split CHR ''|'' genotype) [None, None]
      else Inl NameError)"

definition is_genotype_missing :: "genotype \<Rightarrow> bool" where
  "is_genotype_missing genotype \<longleftrightarrow> None \<in> set genotype"

definition is_indv_heterozygous :: "genotype \<Rightarrow> bool res" where
  "is_indv_heterozygous genotype =
     rbind (py_assert (\<not> is_genotype_missing genotype)) (\<lambda>_.
     rbind (py_assert (length genotype = 2)) (\<lambda>_.
       Inr (genotype ! 0 \<noteq> genotype ! 1)))"

subsection \<open>Lemmas\<close>

lemma not_digit_separators [simp]:
  "\<not> is_digit CHR ''/''" "\<not> is_digit CHR ''|''" "\<not> is_digit CHR '':''"
  by (simp_all add: is_digit_def)

lemma separators_not_in_str_nat [simp]:
  "CHR ''/'' \<notin> set (str_nat n)" "CHR ''|'' \<notin> set (str_nat n)" "CHR '':'' \<notin> set (str_nat n)"
  by (simp_all add: str_nat_no_char)

lemma hd_py_split_prefix:
  "c \<notin> set w \<Longrightarrow> s = [] \<or> hd s = c \<Longrightarrow> hd (py_split c (w @ s)) = w"
  by (cases s) (auto simp: py_split_no_sep py_split_append_sep)

lemma fill_alleles_length:
  "fill_alleles i as g = Inr g' \<Longrightarrow> length g' = length g"
  by (induction i as g rule: fill_alleles.induct) (auto simp: res_simps split: if_splits)

text \<open>The cases of \<open>simplify_genotype_str\<close> on the genotype part of the field.\<close>

lemma simplify_genotype_str_cases:
  "simplify_genotype_str f =
     (let g = hd (py_split CHR '':'' f) in
      if CHR ''/'' \<in> set g then fill_alleles 0 (py_split CHR ''/'' g) [None, None]
      else if CHR ''|'' \<in> set g then fill_alleles 0 (py_split CHR ''|'' g) [None, None]
      else Inl NameError)"
  by (simp add: simplify_genotype_str_def)

lemma simplify_genotype_str_length:
  "simplify_genotype_str f = Inr g \<Longrightarrow> length g = 2"
  by (auto simp: simplify_genotype_str_def Let_def split: if_splits dest!: fill_alleles_length)

lemma is_indv_heterozygous_eq:
  "is_indv_heterozygous g =
     (if is_genotype_missing g \<or> length g \<noteq> 2 then Inl AssertionError else Inr (g ! 0 \<noteq> g ! 1))"
  by (cases "is_genotype_missing g") (simp_all add: is_indv_heterozygous_def)

text \<open>A genotype field whose genotype part is two decimal alleles around one separator,
  followed by nothing or by \<open>:\<close> and further FORMAT values, normalises to the alleles.\<close>

lemma simplify_genotype_canonical:
  assumes "sep = CHR ''/'' \<or> sep = CHR ''|''" and "fmt = [] \<or> hd fmt = CHR '':''"
  shows "simplify_genotype_str (str_nat a @ sep # str_nat b @ fmt) = Inr [Some (int a), Some (int b)]"
proof -
  let ?g = "str_nat a @ sep # str_nat b"
  have "CHR '':'' \<notin> set ?g" using assms(1) by auto
  then have g: "hd (py_split CHR '':'' (?g @ fmt)) = ?g"
    using assms(2) hd_py_split_prefix by fastforce
  from assms(1) show ?thesis
  proof
    assume "sep = CHR ''/''"
    then show ?thesis
      using g by (simp add: simplify_genotype_str_def py_split_append_sep py_split_no_sep)
  next
    assume "sep = CHR ''|''"
    then show ?thesis
      using g by (simp add: simplify_genotype_str_def py_split_append_sep py_split_no_sep)
  qed
qed

subsection \<open>Properties of the normaliser and the classifiers\<close>

text \<open>
  C10 (safety). The assertion in \<open>is_indv_heterozygous\<close> never fires where
  \<open>process_vcf\<close> calls it: every genotype the normaliser returns has two slots, so when it
  is not missing the classifier returns, and it answers whether the two alleles differ.
\<close>

theorem heterozygous_no_assertion:
  assumes "simplify_genotype_str f = Inr g" and "\<not> is_genotype_missing g"
  shows "is_indv_heterozygous g = Inr (g ! 0 \<noteq> g ! 1)"
  using assms simplify_genotype_str_length [OF assms(1)] by (simp add: is_indv_heterozygous_eq)

theorem heterozygous_no_assertion_witness:
  "simplify_genotype_str ''0|1:10,5:15'' = Inr [Some 0, Some 1] \<and>
   \<not> is_genotype_missing [Some 0, Some 1] \<and>
   is_indv_heterozygous [Some 0, Some 1] = Inr True"
proof -
  have p: "simplify_genotype_str ''0|1:10,5:15'' = Inr [Some 0, Some 1]" by code_simp
  have m: "\<not> is_genotype_missing [Some 0, Some 1]" by (simp add: is_genotype_missing_def)
  show ?thesis using p m heterozygous_no_assertion [OF p m] by simp
qed

text \<open>
  C11 (roundtrip). Printing two allele indices around \<open>/\<close> or \<open>|\<close>, optionally followed by
  \<open>:\<close> and further FORMAT values, and normalising the field gives the two indices back;
  the classifier then calls the genotype heterozygous exactly when they differ.
\<close>

theorem simplify_genotype_roundtrip:
  assumes "sep = CHR ''/'' \<or> sep = CHR ''|''" and "fmt = [] \<or> hd fmt = CHR '':''"
  shows "simplify_genotype_str (str_nat a @ sep # str_nat b @ fmt) = Inr [Some (int a), Some (int b)] \<and>
         rbind (simplify_genotype_str (str_nat a @ sep # str_nat b @ fmt)) is_indv_heterozygous = Inr (a \<noteq> b)"
  using simplify_genotype_canonical [OF assms]
  by (simp add: is_indv_heterozygous_eq is_genotype_missing_def)

theorem simplify_genotype_roundtrip_witness:
  "simplify_genotype_str ''12/3:10,5:15'' = Inr [Some 12, Some 3] \<and>
   rbind (simplify_genotype_str ''12/3:10,5:15'') is_indv_heterozygous = Inr True"
proof -
  have s: "CHR ''/'' = CHR ''/'' \<or> CHR ''/'' = CHR ''|''" by simp
  have f: "'':10,5:15'' = [] \<or> hd '':10,5:15'' = CHR '':''" by simp
  have e: "str_nat 12 @ CHR ''/'' # str_nat 3 @ '':10,5:15'' = ''12/3:10,5:15''" by code_simp
  show ?thesis using simplify_genotype_roundtrip [OF s f, of 12 3] unfolding e
    by (simp add: is_indv_heterozygous_eq is_genotype_missing_def)
qed

text \<open>
  C18 (functional). A genotype with an allele that is not a number (\<open>.\<close> for a missing
  call) normalises to a genotype with a \<open>None\<close> slot, which is classified as missing; the
  heterozygosity classifier refuses it with its assertion.
\<close>

theorem missing_allele_detected:
  assumes "sep = CHR ''/'' \<or> sep = CHR ''|''" and "fmt = [] \<or> hd fmt = CHR '':''"
  shows "simplify_genotype_str (CHR ''.'' # sep # str_nat b @ fmt) = Inr [None, Some (int b)] \<and>
         is_genotype_missing [None, Some (int b)] \<and>
         is_indv_heterozygous [None, Some (int b)] = Inl AssertionError"
proof -
  let ?g = "CHR ''.'' # sep # str_nat b"
  have "CHR '':'' \<notin> set ?g" using assms(1) by auto
  then have g: "hd (py_split CHR '':'' (?g @ fmt)) = ?g"
    using assms(2) hd_py_split_prefix [of "CHR '':''" ?g fmt] by auto
  have "simplify_genotype_str (?g @ fmt) = Inr [None, Some (int b)]"
    using assms(1)
  proof
    assume "sep = CHR ''/''"
    then show ?thesis
      using g by (simp add: simplify_genotype_str_def py_split_no_sep)
  next
    assume "sep = CHR ''|''"
    then show ?thesis
      using g by (simp add: simplify_genotype_str_def py_split_no_sep)
  qed
  then show ?thesis by (simp add: is_indv_heterozygous_eq is_genotype_missing_def)
qed

theorem missing_allele_detected_witness:
  "simplify_genotype_str ''.|1'' = Inr [None, Some 1] \<and> is_genotype_missing [None, Some 1] \<and>
   is_indv_heterozygous [None, Some 1] = Inl AssertionError"
proof -
  have s: "CHR ''|'' = CHR ''/'' \<or> CHR ''|'' = CHR ''|''" by simp
  have f: "([] :: string) = [] \<or> hd ([] :: string) = CHR '':''" by simp
  have e: "CHR ''.'' # CHR ''|'' # str_nat 1 @ [] = ''.|1''" by code_simp
  show ?thesis using missing_allele_detected [OF s f, of 1] unfolding e by simp
qed

text \<open>
  C19 (error). A genotype part with neither \<open>/\<close> nor \<open>|\<close> (a haploid call such as
  \<open>0\<close>, or \<open>.\<close>) leaves \<open>alleles\<close> unbound: the normaliser raises \<open>NameError\<close>.
\<close>

theorem simplify_genotype_no_separator:
  assumes "CHR ''/'' \<notin> set (hd (py_split CHR '':'' f))" and "CHR ''|'' \<notin> set (hd (py_split CHR '':'' f))"
  shows "simplify_genotype_str f = Inl NameError"
  using assms by (simp add: simplify_genotype_str_def)

theorem simplify_genotype_no_separator_witness:
  "simplify_genotype_str ''1:7'' = Inl NameError"
proof -
  have a: "CHR ''/'' \<notin> set (hd (py_split CHR '':'' ''1:7''))" by simp
  have b: "CHR ''|'' \<notin> set (hd (py_split CHR '':'' ''1:7''))" by simp
  show ?thesis by (rule simplify_genotype_no_separator [OF a b])
qed

text \<open>
  C21 (error). More than two alleles are not refused as such: a third numeric allele is
  stored past the two slots of \<open>indv_genos\<close> and raises \<open>IndexError\<close>, while a third
  allele that is not a number is dropped and the call is read as diploid.
\<close>

theorem simplify_genotype_polyploid:
  "simplify_genotype_str (str_nat a @ CHR ''/'' # str_nat b @ CHR ''/'' # str_nat c) = Inl IndexError \<and>
   simplify_genotype_str (str_nat a @ CHR ''/'' # str_nat b @ ''/.'') = Inr [Some (int a), Some (int b)]"
proof -
  have "hd (py_split CHR '':'' (str_nat a @ CHR ''/'' # str_nat b @ CHR ''/'' # str_nat c)) =
        str_nat a @ CHR ''/'' # str_nat b @ CHR ''/'' # str_nat c"
    using hd_py_split_prefix [where s = "[]"] by simp
  moreover have "hd (py_split CHR '':'' (str_nat a @ CHR ''/'' # str_nat b @ ''/.'')) =
        str_nat a @ CHR ''/'' # str_nat b @ ''/.''"
    using hd_py_split_prefix [where s = "[]"] by simp
  ultimately show ?thesis
    by (simp add: simplify_genotype_str_def py_split_append_sep py_split_no_sep)
qed

end
