(* ===== verification/VcfTally.thy ===== *)
theory VcfTally
  imports Genotype
begin

text \<open>
  The parse-and-tally loop of \<open>process_vcf\<close> in
  \<^verbatim>\<open>src/calculate_idnv_obs_het.py\<close> (lines 89--151): the tallies of lines 102--107
  as a record, the header line (118--125), the per-site step (127--149) and the loop
  over the lines of the file (115--149). The file is given as the list of lines the
  file iterator yields, each with its trailing newline.
\<close>

record vcf_tally =
  total_sites :: nat
  variant_sites :: nat
  per_indv_sites :: "nat list"
  per_indv_vars :: "nat list"
  per_indv_hets :: "nat list"
  samples :: "string list"

definition init_tally :: vcf_tally where
  "init_tally = \<lparr>total_sites = 0, variant_sites = 0, per_indv_sites = [], per_indv_vars = [],
                 per_indv_hets = [], samples = []\<rparr>"

abbreviation tab :: char where "tab \<equiv> CHR 0x09"
abbreviation newline :: char where "newline \<equiv> CHR 0x0A"

text \<open>\<open>line.strip('\n').split('\t')\<close>.\<close>

definition vcf_fields :: "string \<Rightarrow> string list" where
  "vcf_fields line = py_split tab (py_strip [newline] line)"

text \<open>The \<open>#CHROM\<close> line: the samples are the fields from the tenth on, and the three
  per-individual tallies are reset to zeros; the global tallies are not reset.\<close>

definition parse_header :: "vcf_tally \<Rightarrow> string \<Rightarrow> vcf_tally" where
  "parse_header t line =
     (let s = drop 9 (vcf_fields line) in
      t\<lparr>samples := s, per_indv_sites := replicate (length s) 0,
        per_indv_vars := replicate (length s) 0, per_indv_hets := replicate (length s) 0\<rparr>)"

text \<open>The loop \<open>for i in range(len(samples))\<close> over the genotype tokens of one site.\<close>

fun tally_genotypes :: "bool \<Rightarrow> nat \<Rightarrow> string list \<Rightarrow> vcf_tally \<Rightarrow> vcf_tally res" where
  "tally_genotypes variant i [] t = Inr t"
| "tally_genotypes variant i (g # gs) t =
     rbind (simplify_genotype_str g) (\<lambda>genotype.
       if is_genotype_missing genotype then tally_genotypes variant (Suc i) gs t
       else rbind (py_incr (per_indv_sites t) i) (\<lambda>ps.
         let t1 = t\<lparr>per_indv_sites := ps\<rparr> in
         if variant then
           rbind (py_incr (per_indv_vars t1) i) (\<lambda>pv.
           rbind (is_indv_heterozygous genotype) (\<lambda>het.
             if het then
               rbind (py_incr (per_indv_hets t1) i) (\<lambda>ph.
                 tally_genotypes variant (Suc i) gs (t1\<lparr>per_indv_vars := pv, per_indv_hets := ph\<rparr>))
             else tally_genotypes variant (Suc i) gs (t1\<lparr>per_indv_vars := pv\<rparr>)))
         else tally_genotypes variant (Suc i) gs t1))"

text \<open>One data line: \<open>total_sites\<close> is counted first; \<open>fields[3]\<close> and
  \<open>fields[4]\<close> raise on a short line; the number of genotype tokens is asserted to be
  the number of samples; a site is variant when neither allele is \<open>.\<close>.\<close>

definition tally_site :: "vcf_tally \<Rightarrow> string \<Rightarrow> vcf_tally res" where
  "tally_site t line =
     (let t0 = t\<lparr>total_sites := Suc (total_sites t)\<rparr>;
          fields = vcf_fields line in
      rbind (py_index fields 3) (\<lambda>ref.
      rbind (py_index fields 4) (\<lambda>alt.
      let genos = drop 9 fields in
      rbind (py_assert (length genos = length (samples t0))) (\<lambda>_.
      let variant = (ref \<noteq> ''.'' \<and> alt \<noteq> ''.'');
          t1 = (if variant then t0\<lparr>variant_sites := Suc (variant_sites t0)\<rparr> else t0) in
      tally_genotypes variant 0 genos t1))))"

definition vcf_line :: "vcf_tally \<Rightarrow> string \<Rightarrow> vcf_tally res" where
  "vcf_line t line =
     (if py_startswith ''##'' line then Inr t
      else if py_startswith ''#CHROM'' line then Inr (parse_header t line)
      else tally_site t line)"

fun vcf_lines :: "vcf_tally \<Rightarrow> string list \<Rightarrow> vcf_tally res" where
  "vcf_lines t [] = Inr t"
| "vcf_lines t (l # ls) = rbind (vcf_line t l) (\<lambda>t'. vcf_lines t' ls)"

definition parse_vcf :: "string list \<Rightarrow> vcf_tally res" where
  "parse_vcf lines = vcf_lines init_tally lines"

subsection \<open>Abstract specification of the per-site counting\<close>

text \<open>
  What one site contributes, stated without the loop: each individual whose genotype
  is not missing gains a genotyped site; at a variant site it also gains a variant site,
  and a heterozygous site when its two alleles differ. \<open>bump_where P xs\<close> adds one to
  the counters at the indices where \<open>P\<close> holds; \<open>at_offset i gts j\<close> is the genotype of
  individual \<open>j\<close> when the loop started at index \<open>i\<close>.
\<close>

definition bump_where :: "(nat \<Rightarrow> bool) \<Rightarrow> nat list \<Rightarrow> nat list" where
  "bump_where P xs = map (\<lambda>j. if P j then Suc (xs ! j) else xs ! j) [0..<length xs]"

definition at_offset :: "nat \<Rightarrow> 'a list \<Rightarrow> nat \<Rightarrow> 'a option" where
  "at_offset i xs j = (if i \<le> j \<and> j - i < length xs then Some (xs ! (j - i)) else None)"

fun counts_site :: "genotype option \<Rightarrow> bool" where
  "counts_site None = False"
| "counts_site (Some g) = (\<not> is_genotype_missing g)"

fun counts_var :: "bool \<Rightarrow> genotype option \<Rightarrow> bool" where
  "counts_var v None = False"
| "counts_var v (Some g) = (v \<and> \<not> is_genotype_missing g)"

fun counts_het :: "bool \<Rightarrow> genotype option \<Rightarrow> bool" where
  "counts_het v None = False"
| "counts_het v (Some g) = (v \<and> \<not> is_genotype_missing g \<and> g ! 0 \<noteq> g ! 1)"

definition count_from :: "nat \<Rightarrow> bool \<Rightarrow> genotype list \<Rightarrow> vcf_tally \<Rightarrow> vcf_tally" where
  "count_from i v gts t =
     t\<lparr>per_indv_sites := bump_where (\<lambda>j. counts_site (at_offset i gts j)) (per_indv_sites t),
       per_indv_vars := bump_where (\<lambda>j. counts_var v (at_offset i gts j)) (per_indv_vars t),
       per_indv_hets := bump_where (\<lambda>j. counts_het v (at_offset i gts j)) (per_indv_hets t)\<rparr>"

fun parse_genotypes :: "string list \<Rightarrow> genotype list res" where
  "parse_genotypes [] = Inr []"
| "parse_genotypes (g # gs) =
     rbind (simplify_genotype_str g) (\<lambda>x. rbind (parse_genotypes gs) (\<lambda>xs. Inr (x # xs)))"

text \<open>A data line read on its own: the variant flag and the parsed genotypes, or the
  first exception the code would raise on it.\<close>

definition read_site :: "nat \<Rightarrow> string \<Rightarrow> (bool \<times> genotype list) res" where
  "read_site n line =
     (let fields = vcf_fields line in
      rbind (py_index fields 3) (\<lambda>ref.
      rbind (py_index fields 4) (\<lambda>alt.
      rbind (py_assert (length (drop 9 fields) = n)) (\<lambda>_.
      rbind (parse_genotypes (drop 9 fields)) (\<lambda>gts. Inr (ref \<noteq> ''.'' \<and> alt \<noteq> ''.'', gts))))))"

definition count_site :: "vcf_tally \<Rightarrow> bool \<times> genotype list \<Rightarrow> vcf_tally" where
  "count_site t s =
     (let (v, gts) = s in
      count_from 0 v gts
        (t\<lparr>total_sites := Suc (total_sites t),
           variant_sites := (if v then Suc (variant_sites t) else variant_sites t)\<rparr>))"

text \<open>The increment the loop body makes at index \<open>i\<close>, when the flag holds.\<close>

definition bump_at :: "bool \<Rightarrow> nat \<Rightarrow> nat list \<Rightarrow> nat list" where
  "bump_at b i xs = (if b then xs[i := Suc (xs ! i)] else xs)"

text \<open>The invariant of the tallies (the data model's "genotyped \<open>\<ge>\<close> variant
  \<open>\<ge>\<close> heterozygous"): the per-individual lists have one counter per sample, and
  each individual's counts are bounded by each other and by the global counts.\<close>

definition tally_inv :: "vcf_tally \<Rightarrow> bool" where
  "tally_inv t \<longleftrightarrow>
     length (per_indv_sites t) = length (samples t) \<and>
     length (per_indv_vars t) = length (samples t) \<and>
     length (per_indv_hets t) = length (samples t) \<and>
     variant_sites t \<le> total_sites t \<and>
     (\<forall>i < length (samples t).
        per_indv_hets t ! i \<le> per_indv_vars t ! i \<and>
        per_indv_vars t ! i \<le> per_indv_sites t ! i \<and>
        per_indv_sites t ! i \<le> total_sites t \<and>
        per_indv_vars t ! i \<le> variant_sites t)"

definition data_line :: "string \<Rightarrow> bool" where
  "data_line l \<longleftrightarrow> \<not> py_startswith ''##'' l \<and> \<not> py_startswith ''#CHROM'' l"

fun read_sites :: "nat \<Rightarrow> string list \<Rightarrow> (bool \<times> genotype list) list res" where
  "read_sites n [] = Inr []"
| "read_sites n (l # ls) = rbind (read_site n l) (\<lambda>s. rbind (read_sites n ls) (\<lambda>ss. Inr (s # ss)))"

definition count_sites :: "vcf_tally \<Rightarrow> (bool \<times> genotype list) list \<Rightarrow> vcf_tally" where
  "count_sites t ss = fold (\<lambda>s t. count_site t s) ss t"

text \<open>The abstract result of a whole file with samples \<open>smp\<close> and data sites
  \<open>ss\<close>: every tally is a count over the sites.\<close>

definition tally_spec :: "string list \<Rightarrow> (bool \<times> genotype list) list \<Rightarrow> vcf_tally" where
  "tally_spec smp ss =
     \<lparr>total_sites = length ss,
      variant_sites = length (filter fst ss),
      per_indv_sites = map (\<lambda>i. length (filter (\<lambda>s. counts_site (at_offset 0 (snd s) i)) ss)) [0..<length smp],
      per_indv_vars = map (\<lambda>i. length (filter (\<lambda>s. counts_var (fst s) (at_offset 0 (snd s) i)) ss)) [0..<length smp],
      per_indv_hets = map (\<lambda>i. length (filter (\<lambda>s. counts_het (fst s) (at_offset 0 (snd s) i)) ss)) [0..<length smp],
      samples = smp\<rparr>"

text \<open>A three-sample file with two variant and two invariant sites, the example of the
  specification's testable properties.\<close>

definition ex_vcf :: "string list" where
  "ex_vcf =
    [''##fileformat=VCFv4.2'' @ [newline],
     py_join tab [''#CHROM'', ''POS'', ''ID'', ''REF'', ''ALT'', ''QUAL'', ''FILTER'', ''INFO'', ''FORMAT'',
                  ''SAMPLE1'', ''SAMPLE2'', ''SAMPLE3''] @ [newline],
     py_join tab [''1'', ''10'', ''.'', ''A'', ''G'', ''.'', ''.'', ''.'', ''GT'', ''0/1'', ''0/0'', ''./.''] @ [newline],
     py_join tab [''1'', ''11'', ''.'', ''A'', ''.'', ''.'', ''.'', ''.'', ''GT'', ''0/0'', ''0/0'', ''0/0''] @ [newline],
     py_join tab [''1'', ''12'', ''.'', ''C'', ''T'', ''.'', ''.'', ''.'', ''GT:DP'', ''1|1:7'', ''0|1:9'', ''0/1:12''] @ [newline],
     py_join tab [''1'', ''13'', ''.'', ''G'', ''.'', ''.'', ''.'', ''.'', ''GT'', ''./.'', ''0/0'', ''0/0''] @ [newline]]"

subsection \<open>Lemmas on the counters\<close>

lemma length_bump_where [simp]: "length (bump_where P xs) = length xs"
  by (simp add: bump_where_def)

lemma nth_bump_where [simp]:
  "j < length xs \<Longrightarrow> bump_where P xs ! j = (if P j then Suc (xs ! j) else xs ! j)"
  by (simp add: bump_where_def)

lemma bump_where_False [simp]: "bump_where (\<lambda>_. False) xs = xs"
  by (simp add: bump_where_def map_nth)

lemma at_offset_Nil [simp]: "at_offset i [] j = None"
  by (simp add: at_offset_def)

lemma at_offset_Cons:
  "at_offset i (x # xs) j = (if j = i then Some x else at_offset (Suc i) xs j)"
  by (auto simp: at_offset_def nth_Cons' Suc_diff_Suc)

lemma at_offset_below [simp]: "at_offset (Suc i) xs i = None"
  by (simp add: at_offset_def)

text \<open>Counting the genotype at index \<open>i\<close> first and the rest after it is counting all.\<close>

lemma bump_where_offset_Cons:
  assumes "i < length xs0" and "F None = False"
  shows "bump_where (\<lambda>j. F (at_offset i (x # xs) j)) xs0 =
         bump_where (\<lambda>j. F (at_offset (Suc i) xs j))
           (if F (Some x) then xs0[i := Suc (xs0 ! i)] else xs0)"
  using assms by (intro nth_equalityI) (auto simp: at_offset_Cons nth_list_update)

lemma parse_genotypes_length:
  "parse_genotypes gs = Inr gts \<Longrightarrow> length gts = length gs"
  by (induction gs arbitrary: gts) (auto simp: res_simps)

lemma parse_genotypes_two:
  "parse_genotypes gs = Inr gts \<Longrightarrow> g \<in> set gts \<Longrightarrow> length g = 2"
  by (induction gs arbitrary: gts) (auto simp: res_simps dest: simplify_genotype_str_length)

lemma count_from_Nil [simp]: "count_from i v [] t = t"
  by (simp add: count_from_def)

lemma count_from_Cons:
  assumes "i < length (per_indv_sites t)" "i < length (per_indv_vars t)" "i < length (per_indv_hets t)"
  shows "count_from i v (x # xs) t =
         count_from (Suc i) v xs
           (t\<lparr>per_indv_sites := bump_at (counts_site (Some x)) i (per_indv_sites t),
              per_indv_vars := bump_at (counts_var v (Some x)) i (per_indv_vars t),
              per_indv_hets := bump_at (counts_het v (Some x)) i (per_indv_hets t)\<rparr>)"
proof -
  note s = bump_where_offset_Cons [where F = counts_site, OF assms(1) counts_site.simps(1)]
    and v = bump_where_offset_Cons [where F = "counts_var v", OF assms(2) counts_var.simps(1)]
    and h = bump_where_offset_Cons [where F = "counts_het v", OF assms(3) counts_het.simps(1)]
  show ?thesis
    unfolding count_from_def bump_at_def s v h by simp
qed

subsection \<open>The loop implements the specification\<close>

text \<open>The per-sample loop, started at index \<open>i\<close>, either raises the first exception
  of the genotype parser or counts the parsed genotypes as the specification says.\<close>

lemma tally_genotypes_refines:
  assumes "i + length gs \<le> length (per_indv_sites t)" "i + length gs \<le> length (per_indv_vars t)"
    "i + length gs \<le> length (per_indv_hets t)"
  shows "tally_genotypes v i gs t = map_sum id (\<lambda>gts. count_from i v gts t) (parse_genotypes gs)"
  using assms
proof (induction gs arbitrary: i t)
  case Nil
  then show ?case by simp
next
  case (Cons g gs)
  show ?case
  proof (cases "simplify_genotype_str g")
    case (Inl e)
    then show ?thesis by simp
  next
    case (Inr x)
    have len: "length x = 2" using Inr by (rule simplify_genotype_str_length)
    have i: "i < length (per_indv_sites t)" "i < length (per_indv_vars t)" "i < length (per_indv_hets t)"
      using Cons.prems by simp_all
    define t' where "t' = t\<lparr>per_indv_sites := bump_at (counts_site (Some x)) i (per_indv_sites t),
              per_indv_vars := bump_at (counts_var v (Some x)) i (per_indv_vars t),
              per_indv_hets := bump_at (counts_het v (Some x)) i (per_indv_hets t)\<rparr>"
    have step: "tally_genotypes v i (g # gs) t = tally_genotypes v (Suc i) gs t'"
      using Inr i len by (auto simp: t'_def bump_at_def Let_def is_indv_heterozygous_eq)
    have IH: "tally_genotypes v (Suc i) gs t' = map_sum id (\<lambda>gts. count_from (Suc i) v gts t') (parse_genotypes gs)"
      using Cons.prems by (intro Cons.IH) (simp_all add: t'_def bump_at_def)
    have "\<And>xs. count_from (Suc i) v xs t' = count_from i v (x # xs) t"
      using i by (simp add: t'_def count_from_Cons)
    then show ?thesis using step IH Inr by (cases "parse_genotypes gs") simp_all
  qed
qed
lemma count_from_lengths [simp]:
  "length (per_indv_sites (count_from i v gts t)) = length (per_indv_sites t)"
  "length (per_indv_vars (count_from i v gts t)) = length (per_indv_vars t)"
  "length (per_indv_hets (count_from i v gts t)) = length (per_indv_hets t)"
  "samples (count_from i v gts t) = samples t"
  "total_sites (count_from i v gts t) = total_sites t"
  "variant_sites (count_from i v gts t) = variant_sites t"
  by (simp_all add: count_from_def)

lemma tally_site_refines:
  assumes "length (per_indv_sites t) = length (samples t)" "length (per_indv_vars t) = length (samples t)"
    "length (per_indv_hets t) = length (samples t)"
  shows "tally_site t line = map_sum id (count_site t) (read_site (length (samples t)) line)"
proof -
  let ?f = "vcf_fields line"
  show ?thesis
  proof (cases "3 < length ?f \<and> 4 < length ?f \<and> length (drop 9 ?f) = length (samples t)")
    case False
    then show ?thesis
      by (cases "3 < length ?f"; cases "4 < length ?f") (auto simp: tally_site_def read_site_def Let_def)
  next
    case True
    let ?v = "?f ! 3 \<noteq> ''.'' \<and> ?f ! 4 \<noteq> ''.''"
    let ?t1 = "t\<lparr>total_sites := Suc (total_sites t), variant_sites := (if ?v then Suc (variant_sites t) else variant_sites t)\<rparr>"
    have "tally_site t line = tally_genotypes ?v 0 (drop 9 ?f) ?t1"
      using True by (auto simp: tally_site_def Let_def)
    also have "\<dots> = map_sum id (\<lambda>gts. count_from 0 ?v gts ?t1) (parse_genotypes (drop 9 ?f))"
      using True assms by (intro tally_genotypes_refines) simp_all
    finally show ?thesis
      using True by (cases "parse_genotypes (drop 9 ?f)") (simp_all add: read_site_def count_site_def)
  qed
qed

lemma counts_flags:
  "counts_het v g \<Longrightarrow> counts_var v g" "counts_var v g \<Longrightarrow> counts_site g" "counts_var v g \<Longrightarrow> v"
  by (cases g; simp)+

lemma count_site_inv: "tally_inv t \<Longrightarrow> tally_inv (count_site t s)"
  by (cases s) (auto simp: tally_inv_def count_site_def count_from_def dest: counts_flags)

lemma parse_header_inv: "tally_inv t \<Longrightarrow> tally_inv (parse_header t line)"
  by (simp add: tally_inv_def parse_header_def Let_def)

lemma tally_inv_lengths:
  "tally_inv t \<Longrightarrow> length (per_indv_sites t) = length (samples t) \<and> length (per_indv_vars t) = length (samples t) \<and>
     length (per_indv_hets t) = length (samples t)"
  by (simp add: tally_inv_def)

lemma vcf_line_inv:
  assumes "tally_inv t" and "vcf_line t l = Inr t'"
  shows "tally_inv t'"
proof (cases "data_line l")
  case True
  with assms have "map_sum id (count_site t) (read_site (length (samples t)) l) = Inr t'"
    using tally_site_refines [of t l] tally_inv_lengths [of t]
    by (simp add: vcf_line_def data_line_def)
  then obtain s where "t' = count_site t s" by (auto simp: res_simps)
  with assms(1) show ?thesis by (simp add: count_site_inv)
next
  case False
  with assms show ?thesis by (auto simp: vcf_line_def data_line_def parse_header_inv split: if_splits)
qed

lemma vcf_lines_inv: "tally_inv t \<Longrightarrow> vcf_lines t ls = Inr t' \<Longrightarrow> tally_inv t'"
  by (induction ls arbitrary: t) (auto simp: res_simps dest: vcf_line_inv)

lemma init_tally_inv: "tally_inv init_tally"
  by (simp add: tally_inv_def init_tally_def)

lemma count_site_frame [simp]:
  "samples (count_site t s) = samples t"
  "total_sites (count_site t s) = Suc (total_sites t)"
  "variant_sites (count_site t s) = (if fst s then Suc (variant_sites t) else variant_sites t)"
  "length (per_indv_sites (count_site t s)) = length (per_indv_sites t)"
  "length (per_indv_vars (count_site t s)) = length (per_indv_vars t)"
  "length (per_indv_hets (count_site t s)) = length (per_indv_hets t)"
  by (cases s; simp add: count_site_def)+

lemma count_site_nth:
  "j < length (per_indv_sites t) \<Longrightarrow>
     per_indv_sites (count_site t s) ! j = per_indv_sites t ! j + (if counts_site (at_offset 0 (snd s) j) then 1 else 0)"
  "j < length (per_indv_vars t) \<Longrightarrow>
     per_indv_vars (count_site t s) ! j = per_indv_vars t ! j + (if counts_var (fst s) (at_offset 0 (snd s) j) then 1 else 0)"
  "j < length (per_indv_hets t) \<Longrightarrow>
     per_indv_hets (count_site t s) ! j = per_indv_hets t ! j + (if counts_het (fst s) (at_offset 0 (snd s) j) then 1 else 0)"
  by (cases s; simp add: count_site_def count_from_def)+

lemma count_sites_Cons [simp]: "count_sites t (s # ss) = count_sites (count_site t s) ss"
  by (simp add: count_sites_def)

lemma count_sites_Nil [simp]: "count_sites t [] = t"
  by (simp add: count_sites_def)

lemma count_sites_frame [simp]:
  "samples (count_sites t ss) = samples t"
  "total_sites (count_sites t ss) = total_sites t + length ss"
  "variant_sites (count_sites t ss) = variant_sites t + length (filter fst ss)"
  "length (per_indv_sites (count_sites t ss)) = length (per_indv_sites t)"
  "length (per_indv_vars (count_sites t ss)) = length (per_indv_vars t)"
  "length (per_indv_hets (count_sites t ss)) = length (per_indv_hets t)"
  by (induction ss arbitrary: t) simp_all

lemma count_sites_nth:
  "j < length (per_indv_sites t) \<Longrightarrow> per_indv_sites (count_sites t ss) ! j =
     per_indv_sites t ! j + length (filter (\<lambda>s. counts_site (at_offset 0 (snd s) j)) ss)"
  "j < length (per_indv_vars t) \<Longrightarrow> per_indv_vars (count_sites t ss) ! j =
     per_indv_vars t ! j + length (filter (\<lambda>s. counts_var (fst s) (at_offset 0 (snd s) j)) ss)"
  "j < length (per_indv_hets t) \<Longrightarrow> per_indv_hets (count_sites t ss) ! j =
     per_indv_hets t ! j + length (filter (\<lambda>s. counts_het (fst s) (at_offset 0 (snd s) j)) ss)"
  by (induction ss arbitrary: t) (simp_all add: count_site_nth)

lemma vcf_lines_data:
  assumes "tally_inv t" and "list_all data_line ls"
  shows "vcf_lines t ls = map_sum id (count_sites t) (read_sites (length (samples t)) ls)"
  using assms
proof (induction ls arbitrary: t)
  case Nil
  then show ?case by simp
next
  case (Cons l ls)
  have step: "vcf_line t l = map_sum id (count_site t) (read_site (length (samples t)) l)"
    using Cons.prems tally_site_refines [of t l] tally_inv_lengths [of t]
    by (simp add: vcf_line_def data_line_def)
  show ?case
  proof (cases "read_site (length (samples t)) l")
    case (Inl e)
    then show ?thesis using step by simp
  next
    case (Inr s)
    have "vcf_lines (count_site t s) ls = map_sum id (count_sites (count_site t s)) (read_sites (length (samples t)) ls)"
      using Cons.prems Cons.IH [of "count_site t s"] by (simp add: count_site_inv id_def)
    then show ?thesis using step Inr by (cases "read_sites (length (samples t)) ls") (simp_all add: id_def)
  qed
qed

lemma count_sites_header:
  "count_sites (parse_header t hdr) ss =
     tally_spec (drop 9 (vcf_fields hdr)) ss
       \<lparr>total_sites := total_sites t + length ss, variant_sites := variant_sites t + length (filter fst ss)\<rparr>"
  (is "?l = ?r")
proof -
  let ?h = "parse_header t hdr"
  have len: "length (per_indv_sites ?h) = length (drop 9 (vcf_fields hdr))"
    "length (per_indv_vars ?h) = length (drop 9 (vcf_fields hdr))"
    "length (per_indv_hets ?h) = length (drop 9 (vcf_fields hdr))"
    by (simp_all add: parse_header_def Let_def)
  have zero: "\<And>j. j < length (drop 9 (vcf_fields hdr)) \<Longrightarrow>
      per_indv_sites ?h ! j = 0 \<and> per_indv_vars ?h ! j = 0 \<and> per_indv_hets ?h ! j = 0"
    by (simp add: parse_header_def Let_def)
  have "per_indv_sites ?l = per_indv_sites ?r" "per_indv_vars ?l = per_indv_vars ?r"
    "per_indv_hets ?l = per_indv_hets ?r"
    by (rule nth_equalityI; simp add: len zero count_sites_nth tally_spec_def)+
  moreover have "samples ?l = samples ?r"
    by (simp add: tally_spec_def parse_header_def Let_def)
  ultimately show ?thesis
    by (intro vcf_tally.equality) (simp_all add: tally_spec_def parse_header_def Let_def)
qed

lemma chrom_not_meta:
  assumes "py_startswith ''#CHROM'' l"
  shows "\<not> py_startswith ''##'' l"
proof -
  have "take 2 l = take 2 (take (length ''#CHROM'') l)" by (simp add: numeral_2_eq_2)
  also have "\<dots> = take 2 ''#CHROM''" using assms by (simp only: py_startswith_def)
  finally have "take 2 l = ''#C''" by simp
  then show ?thesis by (simp add: py_startswith_def numeral_2_eq_2)
qed

lemma vcf_lines_meta:
  "list_all (py_startswith ''##'') meta \<Longrightarrow> vcf_lines t (meta @ ls) = vcf_lines t ls"
  by (induction meta) (simp_all add: vcf_line_def)

lemma parse_vcf_tally_spec:
  assumes "list_all (py_startswith ''##'') meta" and "py_startswith ''#CHROM'' hdr"
    and "list_all data_line data"
  shows "parse_vcf (meta @ hdr # data) =
         map_sum id (tally_spec (drop 9 (vcf_fields hdr))) (read_sites (length (drop 9 (vcf_fields hdr))) data)"
proof -
  let ?h = "parse_header init_tally hdr"
  have inv: "tally_inv ?h" by (intro parse_header_inv init_tally_inv)
  have "parse_vcf (meta @ hdr # data) = vcf_lines ?h data"
    using assms(1,2) chrom_not_meta [OF assms(2)] by (simp add: parse_vcf_def vcf_lines_meta vcf_line_def)
  also have "\<dots> = map_sum id (count_sites ?h) (read_sites (length (samples ?h)) data)"
    using inv assms(3) by (rule vcf_lines_data)
  also have "count_sites ?h = tally_spec (drop 9 (vcf_fields hdr))"
    by (rule ext) (simp add: count_sites_header init_tally_def tally_spec_def)
  finally show ?thesis by (simp add: parse_header_def Let_def id_def)
qed

subsection \<open>Properties of the tally loop\<close>

text \<open>
  C1 (refinement). For a file made of \<open>##\<close> metadata lines, one \<open>#CHROM\<close> header
  and data lines that all read without an exception, \<open>process_vcf\<close>'s loop ends with
  exactly the abstract tallies: the number of sites and of variant sites, and for each
  sample the number of sites where its genotype is not missing, of those that are variant,
  and of those that are variant and heterozygous.
\<close>

theorem parse_vcf_counts:
  assumes "list_all (py_startswith ''##'') meta" and "py_startswith ''#CHROM'' hdr"
    and "list_all data_line data"
    and "read_sites (length (drop 9 (vcf_fields hdr))) data = Inr ss"
  shows "parse_vcf (meta @ hdr # data) = Inr (tally_spec (drop 9 (vcf_fields hdr)) ss)"
  using parse_vcf_tally_spec [OF assms(1-3)] assms(4) by simp

theorem parse_vcf_counts_witness:
  "parse_vcf ex_vcf =
     Inr \<lparr>total_sites = 4, variant_sites = 2, per_indv_sites = [3, 4, 3], per_indv_vars = [2, 2, 1],
          per_indv_hets = [1, 1, 1], samples = [''SAMPLE1'', ''SAMPLE2'', ''SAMPLE3'']\<rparr>"
proof -
  have h1: "list_all (py_startswith ''##'') (take 1 ex_vcf)" by code_simp
  have h2: "py_startswith ''#CHROM'' (ex_vcf ! 1)" by code_simp
  have h3: "list_all data_line (drop 2 ex_vcf)" by code_simp
  have h4: "read_sites (length (drop 9 (vcf_fields (ex_vcf ! 1)))) (drop 2 ex_vcf) =
    Inr [(True, [[Some 0, Some 1], [Some 0, Some 0], [None, None]]),
         (False, [[Some 0, Some 0], [Some 0, Some 0], [Some 0, Some 0]]),
         (True, [[Some 1, Some 1], [Some 0, Some 1], [Some 0, Some 1]]),
         (False, [[None, None], [Some 0, Some 0], [Some 0, Some 0]])]" by code_simp
  have split: "take 1 ex_vcf @ ex_vcf ! 1 # drop 2 ex_vcf = ex_vcf" by (simp add: ex_vcf_def)
  have spec: "tally_spec (drop 9 (vcf_fields (ex_vcf ! 1)))
    [(True, [[Some 0, Some 1], [Some 0, Some 0], [None, None]]),
     (False, [[Some 0, Some 0], [Some 0, Some 0], [Some 0, Some 0]]),
     (True, [[Some 1, Some 1], [Some 0, Some 1], [Some 0, Some 1]]),
     (False, [[None, None], [Some 0, Some 0], [Some 0, Some 0]])] =
    \<lparr>total_sites = 4, variant_sites = 2, per_indv_sites = [3, 4, 3], per_indv_vars = [2, 2, 1],
     per_indv_hets = [1, 1, 1], samples = [''SAMPLE1'', ''SAMPLE2'', ''SAMPLE3'']\<rparr>" by code_simp
  show ?thesis using parse_vcf_counts [OF h1 h2 h3 h4] split spec by simp
qed

text \<open>
  C12 (error). In the same file shape, if some data line raises (a short line, a count of
  genotypes other than the number of samples, or a genotype that cannot be normalised),
  the whole run raises the exception of the first such line.
\<close>

theorem parse_vcf_first_error:
  assumes "list_all (py_startswith ''##'') meta" and "py_startswith ''#CHROM'' hdr"
    and "list_all data_line data"
    and "read_sites (length (drop 9 (vcf_fields hdr))) data = Inl e"
  shows "parse_vcf (meta @ hdr # data) = Inl e"
  using parse_vcf_tally_spec [OF assms(1-3)] assms(4) by simp

theorem parse_vcf_first_error_witness:
  "parse_vcf (take 3 ex_vcf @
     [py_join tab [''1'', ''14'', ''.'', ''A'', ''T'', ''.'', ''.'', ''.'', ''GT'', ''0'', ''0/1'', ''1/1''] @ [newline]])
   = Inl NameError"
proof -
  let ?bad = "py_join tab [''1'', ''14'', ''.'', ''A'', ''T'', ''.'', ''.'', ''.'', ''GT'', ''0'', ''0/1'', ''1/1''] @ [newline]"
  have h1: "list_all (py_startswith ''##'') (take 1 ex_vcf)" by code_simp
  have h2: "py_startswith ''#CHROM'' (ex_vcf ! 1)" by code_simp
  have h3: "list_all data_line [ex_vcf ! 2, ?bad]" by code_simp
  have h4: "read_sites (length (drop 9 (vcf_fields (ex_vcf ! 1)))) [ex_vcf ! 2, ?bad] = Inl NameError"
    by code_simp
  have split: "take 1 ex_vcf @ ex_vcf ! 1 # [ex_vcf ! 2, ?bad] = take 3 ex_vcf @ [?bad]"
    by (simp add: ex_vcf_def)
  show ?thesis using parse_vcf_first_error [OF h1 h2 h3 h4] unfolding split .
qed

text \<open>
  C4 (invariant). Whatever the input, when the loop ends without an exception every sample
  has a counter in each per-individual list, and for each sample
  heterozygous \<open>\<le>\<close> variant \<open>\<le>\<close> genotyped \<open>\<le>\<close> total sites, and variant \<open>\<le>\<close> total
  variant sites \<open>\<le>\<close> total sites.
\<close>

theorem parse_vcf_inv: "parse_vcf ls = Inr t \<Longrightarrow> tally_inv t"
  unfolding parse_vcf_def by (erule vcf_lines_inv [OF init_tally_inv])

theorem parse_vcf_inv_witness:
  "parse_vcf ex_vcf = Inr \<lparr>total_sites = 4, variant_sites = 2, per_indv_sites = [3, 4, 3],
      per_indv_vars = [2, 2, 1], per_indv_hets = [1, 1, 1], samples = [''SAMPLE1'', ''SAMPLE2'', ''SAMPLE3'']\<rparr>
   \<and> tally_inv \<lparr>total_sites = 4, variant_sites = 2, per_indv_sites = [3, 4, 3],
      per_indv_vars = [2, 2, 1], per_indv_hets = [1, 1, 1], samples = [''SAMPLE1'', ''SAMPLE2'', ''SAMPLE3'']\<rparr>"
proof -
  have run: "parse_vcf ex_vcf = Inr \<lparr>total_sites = 4, variant_sites = 2, per_indv_sites = [3, 4, 3],
      per_indv_vars = [2, 2, 1], per_indv_hets = [1, 1, 1], samples = [''SAMPLE1'', ''SAMPLE2'', ''SAMPLE3'']\<rparr>"
    by code_simp
  show ?thesis using run parse_vcf_inv [OF run] by simp
qed

end
