(* ===== verification/PyFloat.thy ===== *)
theory PyFloat
  imports Complex_Main PyStr
begin

text \<open>
  Python's \<open>float\<close> as the whitelist filter uses it: values read by \<open>float(str)\<close>,
  compared with \<open><\<close>, \<open><=\<close>, \<open>>=\<close>, and \<open>1-p\<close>. A finite value is the rational
  number of an IEEE binary64 double: \<open>float(str)\<close> and subtraction round the exact
  result to the nearest double, ties to even, as CPython does, with subnormals and
  overflow to infinity. The infinities and NaN are constructors of their own, with IEEE
  comparisons (every comparison with NaN is false).
\<close>

datatype pyfloat = Fin rat | PInf | NInf | NaN

text \<open>\<open>x < y\<close>.\<close>

fun flt_lt :: "pyfloat \<Rightarrow> pyfloat \<Rightarrow> bool" where
  "flt_lt NaN y = False"
| "flt_lt x NaN = False"
| "flt_lt NInf y = (y \<noteq> NInf)"
| "flt_lt x NInf = False"
| "flt_lt PInf y = False"
| "flt_lt x PInf = True"
| "flt_lt (Fin a) (Fin b) = (a < b)"

text \<open>\<open>x <= y\<close> and \<open>x >= y\<close>.\<close>

definition flt_le :: "pyfloat \<Rightarrow> pyfloat \<Rightarrow> bool" where
  "flt_le x y \<longleftrightarrow> flt_lt x y \<or> (x = y \<and> x \<noteq> NaN)"

definition flt_ge :: "pyfloat \<Rightarrow> pyfloat \<Rightarrow> bool" where
  "flt_ge x y \<longleftrightarrow> flt_le y x"

subsection \<open>Rounding to binary64\<close>

fun nbits :: "nat \<Rightarrow> nat" where
  "nbits n = (if n = 0 then 0 else Suc (nbits (n div 2)))"

text \<open>The integer nearest to \<open>a / b\<close>, ties to the even one.\<close>

definition round_div_even :: "nat \<Rightarrow> nat \<Rightarrow> nat" where
  "round_div_even a b =
     (let q = a div b; r = a mod b in
      if 2 * r < b then q else if b < 2 * r then Suc q else if even q then q else Suc q)"

text \<open>\<open>a / (b * 2^e)\<close> as a fraction of naturals.\<close>

definition scaled :: "nat \<Rightarrow> nat \<Rightarrow> int \<Rightarrow> nat \<times> nat" where
  "scaled a b e = (if 0 \<le> e then (a, b * 2 ^ nat e) else (a * 2 ^ nat (- e), b))"

text \<open>The exponent of the last place of \<open>a / b\<close>: the \<open>e\<close> with
  \<open>2^52 \<le> a / (b * 2^e) < 2^53\<close>, but at least \<open>-1074\<close> (subnormals).\<close>

definition double_exp :: "nat \<Rightarrow> nat \<Rightarrow> int" where
  "double_exp a b =
     (let e1 = int (nbits a) - int (nbits b) - 52;
          (x, y) = scaled a b e1 in
      max (if 2 ^ 52 * y \<le> x then e1 else e1 - 1) (-1074))"

definition pow2 :: "int \<Rightarrow> rat" where
  "pow2 e = (if 0 \<le> e then 2 ^ nat e else 1 / 2 ^ nat (- e))"

text \<open>The double nearest to the non-negative \<open>a / b\<close>; from \<open>2^1024\<close> on (after
  rounding) it is infinity.\<close>

definition double_of_ratio :: "nat \<Rightarrow> nat \<Rightarrow> pyfloat" where
  "double_of_ratio a b =
     (if a = 0 then Fin 0
      else (let e = double_exp a b;
                (x, y) = scaled a b e;
                v = of_nat (round_div_even x y) * pow2 e in
            if 2 ^ 1024 \<le> v then PInf else Fin v))"

fun flt_neg :: "pyfloat \<Rightarrow> pyfloat" where
  "flt_neg (Fin a) = Fin (- a)"
| "flt_neg PInf = NInf"
| "flt_neg NInf = PInf"
| "flt_neg NaN = NaN"

definition round_rat :: "rat \<Rightarrow> pyfloat" where
  "round_rat q =
     (let (n, d) = quotient_of \<bar>q\<bar>;
          r = double_of_ratio (nat n) (nat d) in
      if q < 0 then flt_neg r else r)"

text \<open>\<open>x - y\<close>; \<open>inf - inf\<close> is NaN.\<close>

fun flt_sub :: "pyfloat \<Rightarrow> pyfloat \<Rightarrow> pyfloat" where
  "flt_sub (Fin a) (Fin b) = round_rat (a - b)"
| "flt_sub NaN y = NaN"
| "flt_sub x NaN = NaN"
| "flt_sub PInf PInf = NaN"
| "flt_sub NInf NInf = NaN"
| "flt_sub PInf y = PInf"
| "flt_sub NInf y = NInf"
| "flt_sub x PInf = NInf"
| "flt_sub x NInf = PInf"

subsection \<open>\<open>float(str)\<close>\<close>

definition ascii_lower :: "char \<Rightarrow> char" where
  "ascii_lower c = (if 65 \<le> (of_char c :: nat) \<and> (of_char c :: nat) \<le> 90 then char_of (of_char c + (32 :: nat)) else c)"

text \<open>The digits before and after the point: \<open>12.5\<close>, \<open>12.\<close>, \<open>.5\<close>; the result is
  the integer of all digits and the number of digits after the point.\<close>

definition parse_mantissa :: "string \<Rightarrow> (nat \<times> nat) option" where
  "parse_mantissa s =
     (case py_split CHR ''.'' s of
        [a] \<Rightarrow> (if digit_group a then Some (group_val a, 0) else None)
      | [a, b] \<Rightarrow>
          (if (a = [] \<or> digit_group a) \<and> (b = [] \<or> digit_group b) \<and> (a \<noteq> [] \<or> b \<noteq> [])
           then Some (group_val (a @ b), length (filter (\<lambda>c. c \<noteq> CHR ''_'') b)) else None)
      | _ \<Rightarrow> None)"

definition parse_exponent :: "string \<Rightarrow> int option" where
  "parse_exponent s =
     (case s of
        [] \<Rightarrow> None
      | c # r \<Rightarrow>
          (if c = CHR ''-'' \<and> digit_group r then Some (- int (group_val r))
           else if c = CHR ''+'' \<and> digit_group r then Some (int (group_val r))
           else if digit_group (c # r) then Some (int (group_val (c # r)))
           else None))"

text \<open>\<open>m * 10^e\<close>, rounded to a double.\<close>

definition decimal_value :: "nat \<Rightarrow> int \<Rightarrow> pyfloat" where
  "decimal_value m e = (if 0 \<le> e then double_of_ratio (m * 10 ^ nat e) 1 else double_of_ratio m (10 ^ nat (- e)))"

definition parse_decimal :: "string \<Rightarrow> pyfloat option" where
  "parse_decimal s =
     (let (m, r) = (takeWhile (\<lambda>c. c \<noteq> CHR ''e'' \<and> c \<noteq> CHR ''E'') s,
                    dropWhile (\<lambda>c. c \<noteq> CHR ''e'' \<and> c \<noteq> CHR ''E'') s) in
      case parse_mantissa m of
        None \<Rightarrow> None
      | Some (digs, nfrac) \<Rightarrow>
          (case r of
             [] \<Rightarrow> Some (decimal_value digs (- int nfrac))
           | _ # ex \<Rightarrow>
               (case parse_exponent ex of
                  None \<Rightarrow> None
                | Some e \<Rightarrow> Some (decimal_value digs (e - int nfrac)))))"

definition py_float :: "string \<Rightarrow> pyfloat res" where
  "py_float s =
     (case py_strip py_whitespace s of
        [] \<Rightarrow> Inl ValueError
      | c # r \<Rightarrow>
          (let (neg, body) = (if c = CHR ''-'' then (True, r)
                              else if c = CHR ''+'' then (False, r) else (False, c # r));
               lb = map ascii_lower body in
           if lb = ''inf'' \<or> lb = ''infinity'' then Inr (if neg then NInf else PInf)
           else if lb = ''nan'' then Inr NaN
           else (case parse_decimal body of
                   None \<Rightarrow> Inl ValueError
                 | Some x \<Rightarrow> Inr (if neg then flt_neg x else x))))"

subsection \<open>Evaluation\<close>

text \<open>\<open>nbits\<close> on binary numerals, so that the simplifier rounds concrete values.\<close>

lemma nbits_0 [simp]: "nbits 0 = 0"
  by simp

lemma nbits_1 [simp]: "nbits 1 = 1"
  by simp

lemma nbits_Bit0 [simp]: "nbits (numeral (Num.Bit0 k)) = Suc (nbits (numeral k))"
  by (subst nbits.simps) simp

lemma nbits_Bit1 [simp]: "nbits (numeral (Num.Bit1 k)) = Suc (nbits (numeral k))"
  by (subst nbits.simps) simp

lemma nbits_Suc0 [simp]: "nbits (Suc 0) = Suc 0"
  by simp

declare nbits.simps [simp del]

lemma quotient_of_numeral_div:
  "quotient_of (numeral a / numeral b :: rat) = Rat.normalize (numeral a, numeral b)"
  by (metis Fract_of_int_quotient of_int_numeral quotient_of_Fract)

lemma quotient_of_one_div:
  "quotient_of (1 / numeral b :: rat) = Rat.normalize (1, numeral b)"
  by (metis Fract_of_int_quotient of_int_1 of_int_numeral quotient_of_Fract)

lemma gcd_numeral_step:
  "gcd (numeral a :: int) (numeral b) = gcd (numeral b) (numeral a mod numeral b)"
  by (rule gcd_red_int)

lemmas float_eval = py_float_def parse_decimal_def parse_mantissa_def parse_exponent_def
  decimal_value_def double_of_ratio_def double_exp_def scaled_def round_div_even_def pow2_def
  round_rat_def Let_def py_strip_def py_lstrip_def py_rstrip_def py_whitespace_def digit_group_def
  is_digit_def group_val_def digits_val_def digit_val_def ascii_lower_def
  quotient_of_numeral_div quotient_of_one_div Rat.normalize_def gcd_numeral_step

subsection \<open>Lemmas: rounding does not overflow below \<open>2^1023\<close>\<close>

lemma pow2_powi: "pow2 e = (2::rat) powi e"
  by (simp add: pow2_def power_int_def power_one_over)

lemma nbits_upper: "n < 2 ^ nbits n"
proof (induction n rule: nbits.induct)
  case (1 n)
  then show ?case by (subst nbits.simps) (auto simp: not_less)
qed

lemma nbits_lower: "0 < n \<Longrightarrow> 2 ^ nbits n \<le> 2 * n"
proof (induction n rule: nbits.induct)
  case (1 n)
  then show ?case by (subst nbits.simps) (cases "n div 2 = 0"; auto)
qed

lemma scaled_ratio:
  assumes "0 < b" "scaled a b e = (x, y)"
  shows "0 < y \<and> of_nat x / of_nat y * pow2 e = of_nat a / (of_nat b :: rat)"
  using assms by (cases "0 \<le> e") (auto simp: scaled_def pow2_def)

lemma round_div_even_le:
  assumes "0 < y"
  shows "of_nat (round_div_even x y) \<le> of_nat x / of_nat y + (1::rat)"
proof -
  have "round_div_even x y \<le> x div y + 1" by (simp add: round_div_even_def Let_def)
  moreover have "of_nat (x div y) * of_nat y \<le> (of_nat x :: rat)"
    by (metis div_mult_mod_eq le_add1 of_nat_le_iff of_nat_mult)
  then have "of_nat (x div y) \<le> (of_nat x / of_nat y :: rat)" using assms by (simp add: le_divide_eq)
  ultimately show ?thesis by (metis add_le_cancel_right of_nat_1 of_nat_add of_nat_le_iff order_trans)
qed

lemma pow2_double_exp:
  "pow2 (double_exp a b) \<le> pow2 (int (nbits a) - int (nbits b) - 52) + 1"
proof -
  obtain x y where xy: "scaled a b (int (nbits a) - int (nbits b) - 52) = (x, y)" by fastforce
  define e1 where "e1 = int (nbits a) - int (nbits b) - 52"
  define e' where "e' = (if 2 ^ 52 * y \<le> x then e1 else e1 - 1)"
  have e: "double_exp a b = max e' (-1074)"
    using xy by (simp add: double_exp_def Let_def e'_def e1_def)
  have "pow2 e' \<le> pow2 e1" by (simp add: e'_def pow2_powi power_int_increasing)
  moreover have "pow2 (-1074) \<le> 1" by (simp add: pow2_def)
  moreover have "0 \<le> pow2 e1" by (simp add: pow2_def)
  ultimately show ?thesis using e unfolding e1_def [symmetric] by (cases "e' \<le> -1074") (auto simp: max_def)
qed

lemma pow2_exp_bound:
  assumes "0 < a" "0 < b"
  shows "pow2 (int (nbits a) - int (nbits b) - 52) * 2 ^ 52 \<le> 2 * of_nat a / (of_nat b :: rat)"
proof -
  have "pow2 (int (nbits a) - int (nbits b) - 52) * 2 ^ 52 = 2 ^ nbits a / 2 ^ nbits b"
    by (simp add: pow2_powi power_int_diff)
  also have "\<dots> \<le> 2 * of_nat a / 2 ^ nbits b"
  proof (rule divide_right_mono)
    show "(2::rat) ^ nbits a \<le> 2 * of_nat a"
      using nbits_lower [OF assms(1)] by (metis of_nat_le_iff of_nat_mult of_nat_numeral of_nat_power)
  qed simp
  also have "\<dots> \<le> 2 * of_nat a / of_nat b"
  proof (rule divide_left_mono)
    have "b < 2 ^ nbits b" by (rule nbits_upper)
    then show "(of_nat b :: rat) \<le> 2 ^ nbits b"
      by (metis less_imp_le of_nat_le_iff of_nat_numeral of_nat_power)
  qed (use assms in simp_all)
  finally show ?thesis .
qed

lemma double_of_ratio_finite:
  assumes "0 < b" "of_nat a \<le> 2 ^ 1023 * (of_nat b :: rat)"
  shows "\<exists>q. double_of_ratio a b = Fin q"
proof (cases "a = 0")
  case True
  then show ?thesis by (simp add: double_of_ratio_def)
next
  case False
  define e where "e = double_exp a b"
  define e1 where "e1 = int (nbits a) - int (nbits b) - 52"
  define A where "A = (of_nat a / of_nat b :: rat)"
  obtain x y where xy: "scaled a b e = (x, y)" by fastforce
  have y: "0 < y" and r: "of_nat x / of_nat y * pow2 e = A"
    using scaled_ratio [OF assms(1) xy] by (simp_all add: A_def)
  have p0: "0 \<le> pow2 e" by (simp add: pow2_def)
  have "of_nat (round_div_even x y) * pow2 e \<le> (of_nat x / of_nat y + 1) * pow2 e"
    using round_div_even_le [OF y, of x] p0 by (rule mult_right_mono)
  also have "\<dots> = A + pow2 e" using r by (simp add: algebra_simps)
  also have "\<dots> \<le> A + pow2 e1 + 1" using pow2_double_exp [of a b] by (simp add: e_def e1_def)
  finally have v: "of_nat (round_div_even x y) * pow2 e \<le> A + pow2 e1 + 1" .
  have A: "A \<le> 2 ^ 1023" using assms by (simp add: A_def divide_le_eq)
  have "pow2 e1 * 2 ^ 52 \<le> 2 * A"
    using pow2_exp_bound [of a b] False assms(1) by (simp add: e1_def A_def)
  then have "pow2 e1 * 2 ^ 52 \<le> 2 ^ 1024" using A by simp
  then have "pow2 e1 \<le> 2 ^ 972" by simp
  then have "of_nat (round_div_even x y) * pow2 e < 2 ^ 1024" using v A by simp
  then show ?thesis using False xy by (simp add: double_of_ratio_def e_def Let_def)
qed


subsection \<open>Lemmas: a quotient of at most one rounds into \<open>[0, 1]\<close>\<close>

lemma nbits_mono: "a \<le> b \<Longrightarrow> nbits a \<le> nbits b"
proof (induction b arbitrary: a rule: nbits.induct)
  case (1 b)
  show ?case
  proof (cases "a = 0")
    case True
    then show ?thesis by simp
  next
    case False
    then have "nbits (a div 2) \<le> nbits (b div 2)" using 1 by (simp add: div_le_mono)
    then show ?thesis using False 1(2) by (subst nbits.simps, subst (2) nbits.simps) simp
  qed
qed

lemma round_div_even_le_int:
  assumes "0 < y" "x \<le> N * y"
  shows "round_div_even x y \<le> N"
proof (cases "x div y < N")
  case True
  then show ?thesis by (simp add: round_div_even_def Let_def)
next
  case False
  moreover have "x div y \<le> N" using div_le_mono [OF assms(2), of y] assms(1) by simp
  ultimately have q: "x div y = N" by simp
  then have "x mod y = 0" using div_mult_mod_eq [of x y] assms(2) by simp
  then show ?thesis using q assms(1) by (simp add: round_div_even_def Let_def)
qed

lemma double_of_ratio_unit:
  assumes "a \<le> b" "0 < b"
  shows "double_of_ratio a b = Fin v \<Longrightarrow> 0 \<le> v \<and> v \<le> 1"
proof -
  assume d: "double_of_ratio a b = Fin v"
  show ?thesis
  proof (cases "a = 0")
    case True
    then show ?thesis using d by (simp add: double_of_ratio_def)
  next
    case False
    define e where "e = double_exp a b"
    have "nbits a \<le> nbits b" using nbits_mono [OF assms(1)] .
    then have e0: "e < 0"
      by (auto simp: e_def double_exp_def Let_def split: prod.splits)
    define n where "n = nat (- e)"
    have sc: "scaled a b e = (a * 2 ^ n, b)" using e0 by (simp add: scaled_def n_def)
    have "a * 2 ^ n \<le> 2 ^ n * b" using assms(1) by simp
    then have r: "round_div_even (a * 2 ^ n) b \<le> 2 ^ n" using round_div_even_le_int [OF assms(2)] by blast
    have p: "pow2 e = 1 / 2 ^ n" using e0 by (simp add: pow2_def n_def)
    define w where "w = of_nat (round_div_even (a * 2 ^ n) b) * pow2 e"
    have dv: "double_of_ratio a b = (if 2 ^ 1024 \<le> w then PInf else Fin w)"
      using False sc by (simp only: double_of_ratio_def e_def [symmetric] Let_def prod.case if_False w_def)
    have "v = w" using d dv by (metis pyfloat.distinct(1) pyfloat.inject)
    then have v: "v = of_nat (round_div_even (a * 2 ^ n) b) / 2 ^ n" by (simp add: w_def p)
    have "(of_nat (round_div_even (a * 2 ^ n) b) :: rat) \<le> 2 ^ n"
      using r by (metis of_nat_le_iff of_nat_numeral of_nat_power)
    then show ?thesis using v by (simp add: divide_le_eq)
  qed
qed


subsection \<open>Lemmas: the rounding error, and integers that convert exactly\<close>

lemma round_div_even_err:
  assumes "0 < y"
  shows "\<bar>of_nat (round_div_even x y) - of_nat x / of_nat y\<bar> \<le> (1/2::rat)"
proof -
  define q where "q = x div y"
  define r where "r = x mod y"
  have x: "(of_nat x :: rat) / of_nat y = of_nat q + of_nat r / of_nat y"
    using assms by (simp add: q_def r_def field_simps flip: of_nat_mult of_nat_add)
  have ry: "r < y" using assms by (simp add: r_def)
  have yp: "(0::rat) < of_nat y" using assms by simp
  show ?thesis
  proof (cases "2 * r < y")
    case True
    then have "round_div_even x y = q" by (simp add: round_div_even_def Let_def q_def r_def)
    moreover have "2 * (of_nat r :: rat) \<le> of_nat y" using True by (metis less_imp_le of_nat_le_iff of_nat_mult of_nat_numeral)
    ultimately show ?thesis using x yp by (simp add: divide_le_eq)
  next
    case False
    note F = False
    show ?thesis
    proof (cases "y < 2 * r")
      case True
      then have "round_div_even x y = Suc q" using F by (simp add: round_div_even_def Let_def q_def r_def)
      moreover have "(of_nat y :: rat) \<le> 2 * of_nat r" using True by (metis less_imp_le of_nat_le_iff of_nat_mult of_nat_numeral)
      moreover have "(of_nat r :: rat) \<le> of_nat y" using ry by simp
      ultimately show ?thesis using x yp by (simp add: divide_le_eq abs_le_iff field_simps)
    next
      case False
      then have e: "2 * (of_nat r :: rat) = of_nat y" using F by (metis le_less_linear not_less_iff_gr_or_eq of_nat_mult of_nat_numeral)
      have "round_div_even x y = q \<or> round_div_even x y = Suc q"
        by (simp add: round_div_even_def Let_def q_def r_def)
      then show ?thesis using x yp e by (auto simp: field_simps abs_le_iff)
    qed
  qed
qed

lemma pow2_double_exp_le:
  assumes "0 < a" "0 < b" "-1074 < double_exp a b"
  shows "pow2 (double_exp a b) * 2 ^ 52 \<le> of_nat a / of_nat b"
proof -
  define e1 where "e1 = int (nbits a) - int (nbits b) - 52"
  define A where "A = (of_nat a / of_nat b :: rat)"
  obtain x y where xy: "scaled a b e1 = (x, y)" by fastforce
  have y: "0 < y" and r: "of_nat x / of_nat y * pow2 e1 = A"
    using scaled_ratio [OF assms(2) xy] by (simp_all add: A_def)
  define e' where "e' = (if 2 ^ 52 * y \<le> x then e1 else e1 - 1)"
  have e: "double_exp a b = max e' (-1074)"
    using xy by (simp add: double_exp_def Let_def e'_def e1_def)
  then have ee: "double_exp a b = e'" using assms(3) by auto
  have p0: "0 < pow2 e1" by (simp add: pow2_def)
  show ?thesis
  proof (cases "2 ^ 52 * y \<le> x")
    case True
    then have "(2 ^ 52 :: rat) \<le> of_nat x / of_nat y"
      using y by (simp add: le_divide_eq)
    then have "2 ^ 52 * pow2 e1 \<le> A" using r p0 by (metis mult_right_mono less_imp_le)
    then show ?thesis using True ee by (simp add: e'_def A_def mult.commute)
  next
    case False
    have "pow2 (e1 - 1) * 2 ^ 52 = 2 ^ nbits a / 2 / 2 ^ nbits b"
      by (simp add: e1_def pow2_powi power_int_diff)
    also have "\<dots> \<le> of_nat a / 2 ^ nbits b"
    proof (rule divide_right_mono)
      have "2 ^ nbits a \<le> 2 * a" by (rule nbits_lower [OF assms(1)])
      then have "(2::rat) ^ nbits a \<le> 2 * of_nat a" by (metis of_nat_le_iff of_nat_mult of_nat_numeral of_nat_power)
      then show "(2::rat) ^ nbits a / 2 \<le> of_nat a" by simp
    qed simp
    also have "\<dots> \<le> A" unfolding A_def
    proof (rule divide_left_mono)
      have "b < 2 ^ nbits b" by (rule nbits_upper)
      then show "(of_nat b :: rat) \<le> 2 ^ nbits b" by (metis less_imp_le of_nat_le_iff of_nat_numeral of_nat_power)
    qed (use assms in simp_all)
    finally show ?thesis using False ee by (simp add: e'_def A_def)
  qed
qed

lemma double_of_ratio_err:
  assumes "0 < b" "double_of_ratio a b = Fin v"
  shows "\<bar>v - of_nat a / of_nat b\<bar> \<le> of_nat a / of_nat b / 2 ^ 53 + 1 / 2 ^ 1075"
proof (cases "a = 0")
  case True
  then show ?thesis using assms by (simp add: double_of_ratio_def)
next
  case False
  define e where "e = double_exp a b"
  define A where "A = (of_nat a / of_nat b :: rat)"
  obtain x y where xy: "scaled a b e = (x, y)" by fastforce
  have y: "0 < y" and r: "of_nat x / of_nat y * pow2 e = A"
    using scaled_ratio [OF assms(1) xy] by (simp_all add: A_def)
  have v: "v = of_nat (round_div_even x y) * pow2 e"
    using assms(2) False xy by (auto simp: double_of_ratio_def e_def Let_def split: if_splits)
  have p0: "0 < pow2 e" by (simp add: pow2_def)
  have "v - A = (of_nat (round_div_even x y) - of_nat x / of_nat y) * pow2 e"
    using v r by (simp add: algebra_simps)
  then have "\<bar>v - A\<bar> = \<bar>of_nat (round_div_even x y) - of_nat x / of_nat y\<bar> * pow2 e"
    using p0 by (simp add: abs_mult)
  also have "\<dots> \<le> pow2 e / 2" using round_div_even_err [OF y, of x] p0 by (simp add: mult_right_mono)
  also have "\<dots> \<le> A / 2 ^ 53 + 1 / 2 ^ 1075"
  proof (cases "-1074 < e")
    case True
    have "pow2 e * 2 ^ 52 \<le> A" using pow2_double_exp_le [of a b] True False assms(1) by (simp add: e_def A_def)
    moreover have "1 / 2 ^ 1075 \<ge> (0::rat)" by simp
    ultimately show ?thesis by (simp add: field_simps)
  next
    case False
    have "-1074 \<le> e" unfolding e_def double_exp_def Let_def by (simp split: prod.split)
    then have "e = -1074" using False by simp
    moreover have "0 \<le> A" by (simp add: A_def)
    ultimately show ?thesis by (simp add: pow2_def)
  qed
  finally show ?thesis by (simp add: A_def)
qed

lemma round_rat_err:
  assumes "round_rat q = Fin v"
  shows "\<bar>v - q\<bar> \<le> \<bar>q\<bar> / 2 ^ 53 + 1 / 2 ^ 1075"
proof -
  obtain n d where nd: "quotient_of \<bar>q\<bar> = (n, d)" by fastforce
  have d: "0 < d" using quotient_of_denom_pos [OF nd] .
  have qe: "\<bar>q\<bar> = of_int n / of_int d" using quotient_of_div [OF nd] .
  have n: "0 \<le> n" using qe d by (metis abs_ge_zero of_int_0_le_iff zero_le_divide_iff of_int_pos not_less less_imp_le)
  have qa: "\<bar>q\<bar> = of_nat (nat n) / of_nat (nat d)" using qe n d by simp
  show ?thesis
  proof (cases "q < 0")
    case True
    then have "double_of_ratio (nat n) (nat d) = Fin (- v)"
      using assms nd by (cases "double_of_ratio (nat n) (nat d)") (auto simp: round_rat_def)
    then have "\<bar>- v - \<bar>q\<bar>\<bar> \<le> \<bar>q\<bar> / 2 ^ 53 + 1 / 2 ^ 1075"
      using double_of_ratio_err [of "nat d" "nat n" "- v"] d qa by simp
    then show ?thesis using True by (simp add: abs_minus_commute)
  next
    case False
    then have "double_of_ratio (nat n) (nat d) = Fin v" using assms nd by (simp add: round_rat_def)
    then show ?thesis using double_of_ratio_err [of "nat d" "nat n" v] d qa False by simp
  qed
qed

lemma nbits_le_pow: "n < 2 ^ k \<Longrightarrow> nbits n \<le> k"
proof (induction k arbitrary: n)
  case 0
  then show ?case by simp
next
  case (Suc k)
  then have "n div 2 < 2 ^ k" by simp
  then show ?case using Suc.IH by (subst nbits.simps) simp
qed

lemma double_of_ratio_nat:
  assumes "a < 2 ^ 53"
  shows "double_of_ratio a 1 = Fin (of_nat a)"
proof (cases "a = 0")
  case True
  then show ?thesis by (simp add: double_of_ratio_def)
next
  case False
  define e where "e = double_exp a 1"
  have "nbits a \<le> 53" using nbits_le_pow [OF assms] .
  moreover have "nbits (Suc 0) = 1" using nbits_1 by simp
  ultimately have e0: "e \<le> 0" by (auto simp: e_def double_exp_def Let_def split: prod.split)
  define k where "k = nat (- e)"
  have sc: "scaled a 1 e = (a * 2 ^ k, 1)" using e0 by (simp add: scaled_def k_def)
  have p: "pow2 e = 1 / 2 ^ k" using e0 by (simp add: pow2_def k_def)
  have r: "round_div_even (a * 2 ^ k) 1 = a * 2 ^ k" by (simp add: round_div_even_def Let_def)
  have v: "of_nat (a * 2 ^ k) * pow2 e = (of_nat a :: rat)" using p by simp
  have dv: "double_of_ratio a 1 = (if 2 ^ 1024 \<le> of_nat (round_div_even (a * 2 ^ k) 1) * pow2 e then PInf
      else Fin (of_nat (round_div_even (a * 2 ^ k) 1) * pow2 e))"
    using False by (simp only: double_of_ratio_def Let_def e_def [symmetric] sc prod.case if_False simp_thms)
  have lt: "\<not> 2 ^ 1024 \<le> (of_nat a :: rat)"
  proof -
    have "(of_nat a :: rat) < 2 ^ 53" using assms by (metis of_nat_less_iff of_nat_numeral of_nat_power)
    also have "\<dots> \<le> 2 ^ 1024" by simp
    finally show ?thesis by simp
  qed
  show ?thesis unfolding dv r v using lt by (simp only: if_False)
qed

lemma round_rat_nat: "x < 2 ^ 53 \<Longrightarrow> round_rat (of_nat x) = Fin (of_nat x)"
  using double_of_ratio_nat [of x] by (simp add: round_rat_def)

lemma round_rat_finite_abs:
  assumes "\<bar>q\<bar> \<le> 2 ^ 1023"
  shows "\<exists>r. round_rat q = Fin r"
proof -
  obtain n d where nd: "quotient_of \<bar>q\<bar> = (n, d)" by fastforce
  have d: "0 < d" using quotient_of_denom_pos [OF nd] .
  have qe: "\<bar>q\<bar> = of_int n / of_int d" using quotient_of_div [OF nd] .
  have n: "0 \<le> n" using qe d by (metis abs_ge_zero of_int_0_le_iff zero_le_divide_iff of_int_pos not_less less_imp_le)
  have "of_int n \<le> (2 ^ 1023 * of_int d :: rat)" using qe d assms by (simp add: divide_le_eq)
  then have le: "of_nat (nat n) \<le> (2 ^ 1023 * of_nat (nat d) :: rat)" using n d by simp
  obtain r where "double_of_ratio (nat n) (nat d) = Fin r"
    using double_of_ratio_finite [OF _ le] d by auto
  then show ?thesis using nd by (auto simp: round_rat_def Let_def)
qed

lemma double_of_ratio_nonneg: "double_of_ratio a b = Fin v \<Longrightarrow> 0 \<le> v"
  by (auto simp: double_of_ratio_def Let_def pow2_def split: if_splits prod.splits)

lemma round_rat_nonneg: "0 \<le> q \<Longrightarrow> round_rat q = Fin v \<Longrightarrow> 0 \<le> v"
  by (auto simp: round_rat_def intro: double_of_ratio_nonneg split: prod.splits)

lemma double_of_ratio_cases: "double_of_ratio a b = PInf \<or> (\<exists>q. double_of_ratio a b = Fin q)"
  by (auto simp: double_of_ratio_def Let_def split: prod.split)

lemma round_rat_cases: "round_rat q = PInf \<or> round_rat q = NInf \<or> (\<exists>r. round_rat q = Fin r)"
proof -
  obtain n d where nd: "quotient_of \<bar>q\<bar> = (n, d)" by fastforce
  show ?thesis using double_of_ratio_cases [of "nat n" "nat d"] nd by (auto simp: round_rat_def Let_def)
qed

end
