(* ===== verification/PyStats.thy ===== *)
theory PyStats
  imports PyFloat
begin

text \<open>
  The parts of Python 3.10 that the report of \<^verbatim>\<open>src/calculate_idnv_obs_het.py\<close>
  calls on its counts: true division of two ints, and the \<open>statistics\<close> functions
  \<open>mean\<close>, \<open>median\<close> and \<open>stdev\<close> (with \<open>_convert\<close>, \<open>_ss\<close> and \<open>variance\<close>,
  and \<open>math.sqrt\<close> correctly rounded). The data are lists of naturals, as the counters
  of the script are.
\<close>

text \<open>A number as the \<open>statistics\<close> functions return it: an \<open>int\<close> or a \<open>float\<close>.\<close>

datatype pynum = IntVal int | FloatVal pyfloat

text \<open>\<open>a / b\<close> on non-negative Python ints: correctly rounded, \<open>ZeroDivisionError\<close>
  for \<open>b = 0\<close>, \<open>OverflowError\<close> when the quotient rounds beyond the largest double.\<close>

definition py_truediv :: "nat \<Rightarrow> nat \<Rightarrow> pyfloat res" where
  "py_truediv a b =
     (if b = 0 then Inl ZeroDivisionError
      else (case double_of_ratio a b of PInf \<Rightarrow> Inl OverflowError | r \<Rightarrow> Inr r))"

text \<open>\<open>statistics._convert(value, int)\<close>: an \<open>int\<close> when the exact fraction is
  integral, otherwise \<open>float(value)\<close>, which raises \<open>OverflowError\<close> beyond the
  doubles.\<close>

definition py_convert :: "rat \<Rightarrow> pynum res" where
  "py_convert q =
     (let (n, d) = quotient_of q in
      if d = 1 then Inr (IntVal n)
      else (case round_rat q of PInf \<Rightarrow> Inl OverflowError | NInf \<Rightarrow> Inl OverflowError
              | r \<Rightarrow> Inr (FloatVal r)))"

text \<open>\<open>statistics.mean\<close>: the exact sum over the count, converted.\<close>

definition py_mean :: "nat list \<Rightarrow> pynum res" where
  "py_mean xs =
     (if xs = [] then Inl StatisticsError
      else py_convert (of_nat (sum_list xs) / of_nat (length xs)))"

text \<open>\<open>statistics.median\<close>: the middle of the sorted data, or the true division of the
  two middle values by 2 (always a \<open>float\<close>).\<close>

definition py_median :: "nat list \<Rightarrow> pynum res" where
  "py_median xs =
     (let ys = sort xs; n = length ys in
      if n = 0 then Inl StatisticsError
      else if n mod 2 = 1 then Inr (IntVal (int (ys ! (n div 2))))
      else rbind (py_truediv (ys ! (n div 2 - 1) + ys ! (n div 2)) 2) (\<lambda>r. Inr (FloatVal r)))"

subsection \<open>\<open>math.sqrt\<close>\<close>

text \<open>The integer square root by Heron's method: from a start above the root, step to
  \<open>(n div x + x) div 2\<close> until \<open>x * x \<le> n\<close>. The start \<open>2^((nbits n + 1) div 2)\<close>
  is above the root.\<close>

function isqrt_heron :: "nat \<Rightarrow> nat \<Rightarrow> nat" where
  "isqrt_heron n x = (if x * x \<le> n then x else isqrt_heron n ((n div x + x) div 2))"
  by auto
termination
proof (relation "measure (\<lambda>(n, x). x)")
  fix n x :: nat
  assume x: "\<not> x * x \<le> n"
  then have "0 < x" by (cases x) auto
  have "n div x * x \<le> n" by simp
  also have "n < x * x" using x by simp
  finally have "n div x < x" using \<open>0 < x\<close> by simp
  then show "((n, (n div x + x) div 2), n, x) \<in> measure (\<lambda>(n, x). x)" by simp
qed simp

declare isqrt_heron.simps [simp del]

definition isqrt :: "nat \<Rightarrow> nat" where
  "isqrt n = isqrt_heron n (2 ^ ((nbits n + 1) div 2))"

text \<open>The exponent \<open>e\<close> of the last place of \<open>sqrt (a / b)\<close>: the one with
  \<open>2^104 \<le> a / (b * 4^e) < 2^106\<close>, so that the integer root has 53 bits. For a
  positive double the root is a normal double, so no subnormal case arises.\<close>

definition sqrt_exp :: "nat \<Rightarrow> nat \<Rightarrow> int" where
  "sqrt_exp a b =
     (let e0 = (int (nbits a) - int (nbits b) - 105) div 2;
          (x, y) = scaled a b (2 * e0) in
      if 2 ^ 106 * y \<le> x then e0 + 1 else e0)"

text \<open>The double nearest to \<open>sqrt (a / b)\<close>, ties to even, for positive \<open>a\<close>, \<open>b\<close>: the
  integer root \<open>m\<close> of the scaled quotient, rounded up when the quotient lies above
  \<open>(m + 1/2)^2\<close>.\<close>

definition sqrt_round :: "nat \<Rightarrow> nat \<Rightarrow> rat" where
  "sqrt_round a b =
     (let e = sqrt_exp a b;
          (x, y) = scaled a b (2 * e);
          m = isqrt (x div y);
          t = (4 * m * m + 4 * m + 1) * y;
          m' = (if 4 * x < t then m else if t < 4 * x then Suc m else if even m then m else Suc m) in
      of_nat m' * pow2 e)"

text \<open>\<open>math.sqrt\<close> on a float: \<open>ValueError\<close> (math domain error) below zero.\<close>

fun py_sqrt :: "pyfloat \<Rightarrow> pyfloat res" where
  "py_sqrt (Fin q) =
     (if q < 0 then Inl ValueError
      else if q = 0 then Inr (Fin 0)
      else (let (n, d) = quotient_of q in Inr (Fin (sqrt_round (nat n) (nat d)))))"
| "py_sqrt PInf = Inr PInf"
| "py_sqrt NInf = Inl ValueError"
| "py_sqrt NaN = Inr NaN"

text \<open>\<open>float(i)\<close> of an int, as \<open>PyLong_AsDouble\<close> does it: correctly rounded,
  \<open>OverflowError\<close> beyond the doubles.\<close>

definition py_int_float :: "int \<Rightarrow> pyfloat res" where
  "py_int_float i = (case round_rat (of_int i) of Fin r \<Rightarrow> Inr (Fin r) | _ \<Rightarrow> Inl OverflowError)"

text \<open>\<open>math.sqrt(x)\<close> converts an int argument to float first.\<close>

fun py_num_sqrt :: "pynum \<Rightarrow> pyfloat res" where
  "py_num_sqrt (IntVal i) = rbind (py_int_float i) py_sqrt"
| "py_num_sqrt (FloatVal f) = py_sqrt f"

subsection \<open>\<open>statistics.stdev\<close>\<close>

text \<open>A finite float and its value.\<close>

fun is_fin :: "pyfloat \<Rightarrow> bool" where
  "is_fin (Fin q) = True"
| "is_fin _ = False"

fun fin_val :: "pyfloat \<Rightarrow> rat" where
  "fin_val (Fin q) = q"
| "fin_val _ = 0"

text \<open>\<open>d ** 2\<close> on a float, taken as the correctly rounded square (CPython calls the C
  library's \<open>pow\<close>, which glibc computes to within about half an ulp).\<close>

fun flt_sq :: "pyfloat \<Rightarrow> pyfloat" where
  "flt_sq (Fin a) = round_rat (a * a)"
| "flt_sq NaN = NaN"
| "flt_sq _ = PInf"

text \<open>\<open>total - total2 ** 2 / len(data)\<close> of \<open>_ss\<close>, in exact fractions: the sum of
  squares less the square of the sum of deviations over the count.\<close>

definition ss_total :: "rat list \<Rightarrow> rat list \<Rightarrow> rat" where
  "ss_total sqs ds = sum_list sqs - (sum_list ds) ^ 2 / of_nat (length ds)"

text \<open>\<open>_ss\<close> and the \<open>_convert(ss / (n - 1), T)\<close> of \<open>variance\<close> when the mean is the
  int \<open>c\<close>: the deviations and their squares are exact ints.\<close>

definition ss_int :: "nat list \<Rightarrow> int \<Rightarrow> pynum res" where
  "ss_int xs c =
     (let ds = map (\<lambda>x. of_int (int x - c)) xs;
          total = ss_total (map (\<lambda>d. d * d) ds) ds in
      rbind (py_assert (\<not> total < 0)) (\<lambda>_. py_convert (total / of_nat (length xs - 1))))"

text \<open>The deviations \<open>x - c\<close> from a float mean: \<open>x\<close> converted to float, then
  subtracted with rounding.\<close>

fun float_devs :: "pyfloat \<Rightarrow> nat list \<Rightarrow> pyfloat list res" where
  "float_devs c [] = Inr []"
| "float_devs c (x # xs) =
     rbind (py_int_float (int x)) (\<lambda>xf. rbind (float_devs c xs) (\<lambda>ds. Inr (flt_sub xf c # ds)))"

text \<open>The same when the mean is the float \<open>c\<close>: \<open>_sum\<close> adds the floats exactly as
  fractions, unless one of them is infinite or NaN, when the sum is a float; an infinite
  deviation makes \<open>inf - inf\<close>, a NaN, and an infinite square alone makes infinity.\<close>

definition ss_float :: "nat list \<Rightarrow> pyfloat \<Rightarrow> pynum res" where
  "ss_float xs c =
     rbind (float_devs c xs) (\<lambda>ds.
       if \<not> list_all is_fin ds then Inr (FloatVal NaN)
       else (let sqs = map flt_sq ds in
         if \<not> list_all is_fin sqs then Inr (FloatVal PInf)
         else (let total = ss_total (map fin_val sqs) (map fin_val ds) in
           rbind (py_assert (\<not> total < 0)) (\<lambda>_.
             (case round_rat (total / of_nat (length xs - 1)) of
                PInf \<Rightarrow> Inl OverflowError
              | NInf \<Rightarrow> Inl OverflowError
              | v \<Rightarrow> Inr (FloatVal v))))))"

text \<open>\<open>statistics.variance\<close>: \<open>StatisticsError\<close> for fewer than two data points, then
  \<open>_ss\<close> around \<open>c = mean(data)\<close>, with the type of the mean.\<close>

definition py_variance :: "nat list \<Rightarrow> pynum res" where
  "py_variance xs =
     (if length xs < 2 then Inl StatisticsError
      else rbind (py_mean xs) (\<lambda>c. case c of IntVal m \<Rightarrow> ss_int xs m | FloatVal f \<Rightarrow> ss_float xs f))"

text \<open>\<open>statistics.stdev\<close>: neither an int nor a float has a \<open>sqrt\<close> method, so it is
  \<open>math.sqrt\<close> of the variance.\<close>

definition py_stdev :: "nat list \<Rightarrow> pyfloat res" where
  "py_stdev xs = rbind (py_variance xs) py_num_sqrt"


subsection \<open>Lemmas: divisions and statistics that return\<close>

lemmas stats_eval = py_truediv_def py_mean_def py_convert_def py_median_def py_stdev_def py_variance_def
  ss_int_def ss_float_def ss_total_def py_int_float_def sqrt_round_def sqrt_exp_def isqrt_def isqrt_heron.simps

lemma py_stdev_few: "length xs < 2 \<Longrightarrow> py_stdev xs = Inl StatisticsError"
  by (simp add: py_stdev_def py_variance_def)

lemma py_truediv_ok:
  assumes "0 < b" "of_nat a \<le> 2 ^ 1023 * (of_nat b :: rat)"
  shows "\<exists>r. py_truediv a b = Inr (Fin r)"
  using double_of_ratio_finite [OF assms] assms(1) by (auto simp: py_truediv_def)

lemma py_truediv_le: "a \<le> b \<Longrightarrow> 0 < b \<Longrightarrow> \<exists>r. py_truediv a b = Inr (Fin r)"
proof (rule py_truediv_ok)
  assume "a \<le> b" "0 < b"
  then have "(of_nat a :: rat) \<le> of_nat b" by simp
  also have "\<dots> \<le> 2 ^ 1023 * of_nat b" by (simp add: mult_le_cancel_right1)
  finally show "(of_nat a :: rat) \<le> 2 ^ 1023 * of_nat b" .
qed

lemma py_truediv_zero [simp]: "py_truediv a 0 = Inl ZeroDivisionError"
  by (simp add: py_truediv_def)

lemma round_rat_finite:
  assumes "0 \<le> q" "q \<le> 2 ^ 1023"
  shows "\<exists>r. round_rat q = Fin r"
proof -
  obtain n d where nd: "quotient_of \<bar>q\<bar> = (n, d)" by fastforce
  have d: "0 < d" using quotient_of_denom_pos [OF nd] .
  have qe: "q = of_int n / of_int d" using quotient_of_div [OF nd] assms(1) by simp
  have n: "0 \<le> n" using qe d assms(1) by (simp add: zero_le_divide_iff)
  have "of_int n \<le> (2 ^ 1023 * of_int d :: rat)" using qe d assms(2) by (simp add: divide_le_eq)
  then have le: "of_nat (nat n) \<le> (2 ^ 1023 * of_nat (nat d) :: rat)" using n d by simp
  obtain r where "double_of_ratio (nat n) (nat d) = Fin r"
    using double_of_ratio_finite [OF _ le] d by auto
  then show ?thesis using nd assms(1) by (auto simp: round_rat_def)
qed

lemma sum_list_le_bound: "(\<forall>x \<in> set xs. x \<le> c) \<Longrightarrow> sum_list xs \<le> length xs * (c :: nat)"
  by (induction xs) auto

lemma py_convert_ok: "0 \<le> q \<Longrightarrow> q \<le> 2 ^ 1023 \<Longrightarrow> \<exists>m. py_convert q = Inr m"
  using round_rat_finite [of q] by (auto simp: py_convert_def split: prod.splits)

lemma py_mean_ok:
  assumes "xs \<noteq> []" "\<forall>x \<in> set xs. x \<le> c" "c \<le> 2 ^ 1023"
  shows "\<exists>m. py_mean xs = Inr m"
proof -
  have "sum_list xs \<le> length xs * c" using sum_list_le_bound [OF assms(2)] .
  then have "(of_nat (sum_list xs) :: rat) \<le> of_nat (length xs) * of_nat c"
    by (metis of_nat_le_iff of_nat_mult)
  then have "(of_nat (sum_list xs) / of_nat (length xs) :: rat) \<le> of_nat c"
    using assms(1) by (simp add: divide_le_eq mult.commute)
  also have "\<dots> \<le> 2 ^ 1023" using assms(3) by (metis of_nat_le_iff of_nat_numeral of_nat_power)
  finally show ?thesis using assms(1) py_convert_ok by (simp add: py_mean_def)
qed

lemma py_median_ok:
  assumes "xs \<noteq> []" "\<forall>x \<in> set xs. x \<le> c" "c \<le> 2 ^ 1023"
  shows "\<exists>m. py_median xs = Inr m"
proof -
  let ?ys = "sort xs" and ?n = "length xs"
  have n: "0 < ?n" using assms(1) by simp
  have ne: "?ys \<noteq> []" using assms(1) by (metis length_0_conv length_sort)
  have le: "\<And>i. i < ?n \<Longrightarrow> ?ys ! i \<le> c"
    using assms(2) by (metis length_sort nth_mem set_sort)
  show ?thesis
  proof (cases "?n mod 2 = 1")
    case True
    then show ?thesis using ne by (simp add: py_median_def Let_def)
  next
    case False
    then have "2 \<le> ?n" using n by presburger
    then have "?ys ! (?n div 2 - 1) + ?ys ! (?n div 2) \<le> 2 * c" using le by (simp add: add_mono_thms_linordered_semiring(1) mult_2)
    then have "(of_nat (?ys ! (?n div 2 - 1) + ?ys ! (?n div 2)) :: rat) \<le> 2 * of_nat c"
      by (metis of_nat_le_iff of_nat_mult of_nat_numeral)
    moreover have "(of_nat c :: rat) \<le> 2 ^ 1023"
      using assms(3) by (metis of_nat_le_iff of_nat_numeral of_nat_power)
    ultimately have le2: "of_nat (?ys ! (?n div 2 - 1) + ?ys ! (?n div 2)) \<le> (2 ^ 1023 * of_nat (2::nat) :: rat)"
      by simp
    obtain r where "py_truediv (?ys ! (?n div 2 - 1) + ?ys ! (?n div 2)) 2 = Inr (Fin r)"
      using py_truediv_ok [OF _ le2] by auto
    then show ?thesis using ne False by (simp add: py_median_def Let_def)
  qed
qed

lemma py_truediv_Inr: "py_truediv a b = Inr r \<Longrightarrow> 0 < b \<and> double_of_ratio a b = r"
  by (auto simp: py_truediv_def split: if_splits pyfloat.splits)

lemma py_truediv_unit:
  assumes "a \<le> b" "py_truediv a b = Inr p"
  shows "flt_le (Fin 0) p \<and> flt_le p (Fin 1)"
proof -
  have b: "0 < b" and d: "double_of_ratio a b = p" using py_truediv_Inr [OF assms(2)] by auto
  obtain q where p: "p = Fin q" using py_truediv_le [OF assms(1) b] assms(2) by auto
  show ?thesis using double_of_ratio_unit [OF assms(1) b] d p by (auto simp: flt_le_def)
qed


subsection \<open>Lemmas: Heron's method computes the integer square root; positive roots\<close>

lemma heron_step:
  assumes "0 < x"
  shows "n < Suc ((n div x + x) div 2) * Suc ((n div x + x) div 2)"
proof -
  define q where "q = n div x"
  define x' where "x' = (q + x) div 2"
  have nq: "n < (q + 1) * x"
  proof -
    have "n = q * x + n mod x" by (simp add: q_def)
    moreover have "n mod x < x" using assms by simp
    ultimately show ?thesis by (simp add: algebra_simps)
  qed
  have h2: "q + x + 1 \<le> 2 * (x' + 1)" by (simp add: x'_def)
  have "4 * ((q + 1) * x) \<le> (q + x + 1) * (q + x + 1)"
  proof -
    have "int (4 * ((q + 1) * x)) \<le> int ((q + x + 1) * (q + x + 1))"
    proof -
      have "0 \<le> (int q + 1 - int x) * (int q + 1 - int x)" by simp
      then show ?thesis by (simp add: algebra_simps)
    qed
    then show ?thesis by linarith
  qed
  also have "\<dots> \<le> (2 * (x' + 1)) * (2 * (x' + 1))" using h2 by (intro mult_mono) auto
  finally have "(q + 1) * x \<le> (x' + 1) * (x' + 1)" by simp
  then show ?thesis using nq by (simp add: q_def x'_def)
qed

lemma isqrt_heron_correct:
  "n < Suc x * Suc x \<Longrightarrow> isqrt_heron n x * isqrt_heron n x \<le> n \<and> n < Suc (isqrt_heron n x) * Suc (isqrt_heron n x)"
proof (induction n x rule: isqrt_heron.induct)
  case (1 n x)
  show ?case
  proof (cases "x * x \<le> n")
    case True
    then show ?thesis using 1(2) by (subst (1 2 3 4) isqrt_heron.simps) simp
  next
    case False
    then have "0 < x" by (cases x) auto
    then have "n < Suc ((n div x + x) div 2) * Suc ((n div x + x) div 2)" by (rule heron_step)
    then show ?thesis using 1(1) [OF False] False by (subst (1 2 3 4) isqrt_heron.simps) simp
  qed
qed

lemma isqrt_correct: "isqrt n * isqrt n \<le> n \<and> n < Suc (isqrt n) * Suc (isqrt n)"
proof -
  define k where "k = (nbits n + 1) div 2"
  have "n < 2 ^ nbits n" by (rule nbits_upper)
  also have "(2::nat) ^ nbits n \<le> 2 ^ (2 * k)" by (rule power_increasing) (simp_all add: k_def)
  also have "(2::nat) ^ (2 * k) = 2 ^ k * 2 ^ k" by (simp add: power_add mult_2 [symmetric] power_mult_distrib flip: power_add)
  also have "\<dots> < Suc (2 ^ k) * Suc (2 ^ k)" by simp
  finally show ?thesis unfolding isqrt_def k_def [symmetric] by (rule isqrt_heron_correct)
qed

lemma ratio_lower: "0 < a \<Longrightarrow> 0 < b \<Longrightarrow> pow2 (int (nbits a) - int (nbits b) - 1) \<le> of_nat a / of_nat b"
proof -
  assume a: "0 < a" and b: "0 < b"
  have "pow2 (int (nbits a) - int (nbits b) - 1) = 2 ^ nbits a / 2 / 2 ^ nbits b"
    by (simp add: pow2_powi power_int_diff)
  also have "\<dots> \<le> of_nat a / 2 ^ nbits b"
  proof (rule divide_right_mono)
    have "2 ^ nbits a \<le> 2 * a" by (rule nbits_lower [OF a])
    then have "(2::rat) ^ nbits a \<le> 2 * of_nat a" by (metis of_nat_le_iff of_nat_mult of_nat_numeral of_nat_power)
    then show "(2::rat) ^ nbits a / 2 \<le> of_nat a" by simp
  qed simp
  also have "\<dots> \<le> of_nat a / of_nat b"
  proof (rule divide_left_mono)
    have "b < 2 ^ nbits b" by (rule nbits_upper)
    then show "(of_nat b :: rat) \<le> 2 ^ nbits b" by (metis less_imp_le of_nat_le_iff of_nat_numeral of_nat_power)
  qed (use a b in simp_all)
  finally show ?thesis .
qed

lemma pow2_nat_le: "(2 ^ k * of_nat y :: rat) \<le> of_nat x \<longleftrightarrow> 2 ^ k * y \<le> x"
proof -
  have "(2 ^ k * of_nat y :: rat) = of_nat (2 ^ k * y)" by simp
  then show ?thesis by (simp only: of_nat_le_iff)
qed

lemma quarter_le: "a * 4 = b \<Longrightarrow> 2 ^ 106 \<le> b \<Longrightarrow> (2::rat) ^ 104 \<le> a"
  by simp

lemma sqrt_exp_scaled:
  assumes "0 < a" "0 < b" "scaled a b (2 * sqrt_exp a b) = (x, y)"
  shows "2 ^ 104 * y \<le> x"
proof -
  define k where "k = int (nbits a) - int (nbits b)"
  define e0 where "e0 = (k - 105) div 2"
  define A where "A = (of_nat a / of_nat b :: rat)"
  obtain x0 y0 where xy0: "scaled a b (2 * e0) = (x0, y0)" by fastforce
  have y0: "0 < y0" and r0: "of_nat x0 / of_nat y0 * pow2 (2 * e0) = A"
    using scaled_ratio [OF assms(2) xy0] by (simp_all add: A_def)
  have y: "0 < y" and r: "of_nat x / of_nat y * pow2 (2 * sqrt_exp a b) = A"
    using scaled_ratio [OF assms(2,3)] by (simp_all add: A_def)
  have Al: "pow2 (k - 1) \<le> A" using ratio_lower [OF assms(1,2)] by (simp add: k_def A_def)
  have e0k: "2 * e0 \<le> k - 105" by (simp add: e0_def)
  have p0: "\<And>e. 0 < pow2 e" by (simp add: pow2_def)
  have "pow2 (k - 1) = pow2 (104 + (k - 105))" by simp
  also have "\<dots> = pow2 104 * pow2 (k - 105)" unfolding pow2_powi by (rule power_int_add) simp
  also have "\<dots> \<ge> pow2 104 * pow2 (2 * e0)"
    using e0k by (intro mult_left_mono) (simp_all add: pow2_powi power_int_increasing)
  finally have "pow2 104 * pow2 (2 * e0) \<le> of_nat x0 / of_nat y0 * pow2 (2 * e0)" using Al r0 by simp
  then have "pow2 104 \<le> of_nat x0 / of_nat y0" using p0 [of "2 * e0"] by (simp only: mult_le_cancel_right_pos)
  then have x0l: "(2 ^ 104 :: rat) \<le> of_nat x0 / of_nat y0" by (simp add: pow2_def)
  have p2: "pow2 (2 * (e0 + 1)) = pow2 (2 * e0) * 4"
  proof -
    have "pow2 (2 * (e0 + 1)) = pow2 (2 * e0 + 2)" by (simp add: algebra_simps)
    also have "\<dots> = pow2 (2 * e0) * pow2 2" unfolding pow2_powi by (rule power_int_add) simp
    finally show ?thesis by (simp add: pow2_def)
  qed
  show ?thesis
  proof (cases "2 ^ 106 * y0 \<le> x0")
    case True
    then have e: "sqrt_exp a b = e0 + 1" using xy0 by (simp add: sqrt_exp_def e0_def k_def Let_def)
    have "(of_nat x / of_nat y * 4 :: rat) * pow2 (2 * e0) = of_nat x0 / of_nat y0 * pow2 (2 * e0)"
      using r e r0 p2 by (simp add: algebra_simps)
    then have q: "(of_nat x / of_nat y * 4 :: rat) = of_nat x0 / of_nat y0"
      by (subst (asm) mult_right_cancel) (use p0 [of "2 * e0"] in auto)
    have "(2 ^ 106 * of_nat y0 :: rat) \<le> of_nat x0" using True pow2_nat_le by blast
    then have "(2 ^ 106 :: rat) \<le> of_nat x0 / of_nat y0" using y0 by (simp add: le_divide_eq)
    then have "(2 ^ 104 :: rat) \<le> of_nat x / of_nat y" using q quarter_le by blast
    then have "(2 ^ 104 * of_nat y :: rat) \<le> of_nat x" using y by (simp add: le_divide_eq)
    then show ?thesis using pow2_nat_le by blast
  next
    case False
    then have e: "sqrt_exp a b = e0" using xy0 by (simp add: sqrt_exp_def e0_def k_def Let_def)
    then have "(x, y) = (x0, y0)" using assms(3) xy0 by simp
    then have "(2 ^ 104 * of_nat y :: rat) \<le> of_nat x" using x0l y0 by (simp add: le_divide_eq)
    then show ?thesis using pow2_nat_le by blast
  qed
qed

lemma isqrt_pos: "0 < n \<Longrightarrow> 0 < isqrt n"
  using isqrt_correct [of n] by (cases "isqrt n") auto

lemma sqrt_round_pos:
  assumes "0 < a" "0 < b"
  shows "0 < sqrt_round a b"
proof -
  obtain x y where xy: "scaled a b (2 * sqrt_exp a b) = (x, y)" by fastforce
  have y: "0 < y" using scaled_ratio [OF assms(2) xy] by simp
  have "2 ^ 104 * y \<le> x" by (rule sqrt_exp_scaled [OF assms xy])
  moreover have "y \<le> 2 ^ 104 * y" by simp
  ultimately have "y \<le> x" by (rule order_trans [rotated])
  then have "0 < x div y" using y by (simp add: div_greater_zero_iff)
  then have m: "0 < isqrt (x div y)" by (rule isqrt_pos)
  have p: "0 < pow2 (sqrt_exp a b)" by (simp add: pow2_def)
  show ?thesis using m p xy by (simp add: sqrt_round_def Let_def)
qed

lemma py_sqrt_pos: "0 < q \<Longrightarrow> \<exists>s. py_sqrt (Fin q) = Inr (Fin s) \<and> 0 < s"
proof -
  assume q: "0 < q"
  obtain n d where nd: "quotient_of q = (n, d)" by fastforce
  have d: "0 < d" using quotient_of_denom_pos [OF nd] .
  have "q = of_int n / of_int d" using quotient_of_div [OF nd] .
  then have n: "0 < n" using q d by (simp add: zero_less_divide_iff)
  show ?thesis using sqrt_round_pos [of "nat n" "nat d"] n d nd q by simp
qed

lemma pos_from_bounds: "q - (a + d) \<le> v \<Longrightarrow> a \<le> q / 2 \<Longrightarrow> d < c / 2 \<Longrightarrow> c \<le> q \<Longrightarrow> 0 < (v::rat)"
  by linarith

lemma round_rat_pos:
  assumes "1 / 2 ^ 1000 \<le> q" "round_rat q = Fin v"
  shows "0 < v"
proof -
  have e: "\<bar>v - q\<bar> \<le> \<bar>q\<bar> / 2 ^ 53 + 1 / 2 ^ 1075" by (rule round_rat_err [OF assms(2)])
  have "(0::rat) < 1 / 2 ^ 1000" by simp
  then have q: "0 < q" using assms(1) by linarith
  have a: "q / 2 ^ 53 \<le> q / 2" using q by (intro divide_left_mono) simp_all
  have b: "(1::rat) / 2 ^ 1075 < 1 / 2 ^ 1000 / 2" by simp
  have "q - (q / 2 ^ 53 + 1 / 2 ^ 1075) \<le> v" using e q by (simp add: abs_le_iff)
  then show ?thesis using a b assms(1) by (rule pos_from_bounds)
qed


subsection \<open>Lemmas: the sum of squares of \<open>_ss\<close> is not negative on bounded counts\<close>

text \<open>With a float mean, the deviations and their squares are rounded, and \<open>_ss\<close>
  asserts that \<open>sum(squares) - sum(deviations)^2 / n\<close> is not negative. On at most
  \<open>2^49 / B\<close> counts below \<open>B\<close> the rounding errors (relative \<open>2^-53\<close>, absolute
  \<open>2^-1075\<close>) are too small to make it so: every deviation from a non-integral mean
  is at least \<open>1/n\<close>.\<close>

lemma ss_elem:
  fixes u mu dl D Sq eps eta B rho :: rat
  assumes D: "D = u + mu + dl" and dl: "\<bar>dl\<bar> \<le> eps * \<bar>u + mu\<bar> + eta"
    and sq: "\<bar>Sq - D * D\<bar> \<le> eps * (D * D) + eta"
    and uB: "\<bar>u\<bar> \<le> B" and mu: "\<bar>mu\<bar> \<le> rho" and e: "0 \<le> eps" "eps \<le> 1/3" and h: "0 \<le> eta"
  shows "(1 - 3 * eps) * (u * u) + 2 * (1 - eps) * mu * u - (2 * B * (eps * rho + eta) + eta) \<le> Sq"
proof -
  define K where "K = B * (eps * rho + eta)"
  have h1: "u * u + 2 * u * mu - 2 * (\<bar>u\<bar> * \<bar>dl\<bar>) \<le> D * D"
  proof -
    have "D * D = u * u + 2 * u * mu + 2 * u * dl + (mu + dl) * (mu + dl)" using D by (simp add: algebra_simps)
    moreover have "- (\<bar>u\<bar> * \<bar>dl\<bar>) \<le> u * dl" by (metis abs_ge_minus_self abs_mult minus_le_iff)
    moreover have "0 \<le> (mu + dl) * (mu + dl)" by simp
    ultimately show ?thesis by linarith
  qed
  have h2: "\<bar>u\<bar> * \<bar>dl\<bar> \<le> eps * (u * u) + K"
  proof -
    have "\<bar>u + mu\<bar> \<le> \<bar>u\<bar> + rho" using mu abs_triangle_ineq [of u mu] by linarith
    then have "eps * \<bar>u + mu\<bar> \<le> eps * (\<bar>u\<bar> + rho)" using e(1) by (rule mult_left_mono)
    then have "\<bar>dl\<bar> \<le> eps * \<bar>u\<bar> + (eps * rho + eta)" using dl by (simp add: algebra_simps)
    then have "\<bar>u\<bar> * \<bar>dl\<bar> \<le> \<bar>u\<bar> * (eps * \<bar>u\<bar> + (eps * rho + eta))" by (simp add: mult_left_mono)
    also have "\<dots> = eps * (u * u) + \<bar>u\<bar> * (eps * rho + eta)" by (simp add: algebra_simps abs_mult_self_eq)
    also have "\<bar>u\<bar> * (eps * rho + eta) \<le> B * (eps * rho + eta)"
    proof (rule mult_right_mono [OF uB])
      show "0 \<le> eps * rho + eta" using mu e h by (simp add: order_trans [OF abs_ge_zero])
    qed
    finally show ?thesis by (simp add: K_def)
  qed
  have K0: "0 \<le> K" unfolding K_def
    using uB mu e h by (intro mult_nonneg_nonneg add_nonneg_nonneg) (auto intro: order_trans [OF abs_ge_zero])
  have h3: "(1 - eps) * (D * D) - eta \<le> Sq" using sq by (simp add: abs_le_iff algebra_simps)
  have "(1 - 2 * eps) * (u * u) + 2 * u * mu - 2 * K \<le> D * D" using h1 h2 by (simp add: algebra_simps)
  then have "(1 - eps) * ((1 - 2 * eps) * (u * u) + 2 * u * mu - 2 * K) \<le> (1 - eps) * (D * D)"
    using e by (intro mult_left_mono) auto
  moreover have "(1 - 3 * eps) * (u * u) + 2 * (1 - eps) * mu * u - 2 * K \<le>
      (1 - eps) * ((1 - 2 * eps) * (u * u) + 2 * u * mu - 2 * K)"
  proof -
    have "0 \<le> 2 * eps * eps * (u * u) + 2 * eps * K" using e K0 by simp
    then show ?thesis by (simp add: algebra_simps)
  qed
  ultimately show ?thesis using h3 by (simp add: K_def)
qed

lemma sum_list_lower:
  fixes f g h :: "nat \<Rightarrow> rat"
  shows "(\<forall>x \<in> set xs. a * g x + b * h x - K \<le> f x) \<Longrightarrow>
    a * sum_list (map g xs) + b * sum_list (map h xs) - of_nat (length xs) * K \<le> sum_list (map f xs)"
proof (induction xs)
  case Nil
  then show ?case by simp
next
  case (Cons y ys)
  then have "a * g y + b * h y - K \<le> f y"
    "a * sum_list (map g ys) + b * sum_list (map h ys) - of_nat (length ys) * K \<le> sum_list (map f ys)" by auto
  then show ?case by (simp add: algebra_simps)
qed

lemma sum_list_abs_le:
  fixes f :: "nat \<Rightarrow> rat"
  shows "(\<forall>x \<in> set xs. \<bar>f x\<bar> \<le> c) \<Longrightarrow> \<bar>sum_list (map f xs)\<bar> \<le> of_nat (length xs) * c"
proof (induction xs)
  case Nil
  then show ?case by simp
next
  case (Cons y ys)
  then have "\<bar>f y\<bar> \<le> c" "\<bar>sum_list (map f ys)\<bar> \<le> of_nat (length ys) * c" by auto
  then show ?case using abs_triangle_ineq [of "f y" "sum_list (map f ys)"] by (simp add: algebra_simps)
qed

lemma sum_list_dev_zero:
  assumes "xs \<noteq> []" "M = of_nat (sum_list xs) / of_nat (length xs)"
  shows "sum_list (map (\<lambda>x. of_nat x - M) xs) = (0::rat)"
proof -
  have "sum_list (map (\<lambda>x. of_nat x - M) xs) = of_nat (sum_list xs) - of_nat (length xs) * M"
    by (induction xs) (simp_all add: algebra_simps)
  then show ?thesis using assms by simp
qed

lemma ss_total_lower:
  fixes D Sq :: "nat \<Rightarrow> rat" and M c0 eps eta B rho :: rat
  assumes n: "2 \<le> length xs" and M: "M = of_nat (sum_list xs) / of_nat (length xs)"
    and frac: "\<forall>x \<in> set xs. 1 / of_nat (length xs) \<le> \<bar>of_nat x - M\<bar>"
    and uB: "\<forall>x \<in> set xs. \<bar>of_nat x - M\<bar> \<le> B"
    and mu: "\<bar>M - c0\<bar> \<le> rho"
    and dev: "\<forall>x \<in> set xs. \<bar>D x - (of_nat x - c0)\<bar> \<le> eps * \<bar>of_nat x - c0\<bar> + eta"
    and sq: "\<forall>x \<in> set xs. \<bar>Sq x - D x * D x\<bar> \<le> eps * (D x * D x) + eta"
    and e: "0 \<le> eps" "eps \<le> 1/3" "0 \<le> eta"
    and budget: "of_nat (length xs) ^ 2 * (2 * B * (eps * rho + eta) + eta + (rho + eps * (B + rho) + eta) ^ 2)
      \<le> 1/2 - 3 * eps"
  shows "1 / (2 * of_nat (length xs)) \<le> sum_list (map Sq xs) - (sum_list (map D xs)) ^ 2 / of_nat (length xs)"
proof -
  define N where "N = (of_nat (length xs) :: rat)"
  define u where "u x = (of_nat x - M :: rat)" for x
  define K1 where "K1 = 2 * B * (eps * rho + eta) + eta"
  define sg where "sg = rho + eps * (B + rho) + eta"
  have N: "2 \<le> N" using n by (simp add: N_def)
  have ne: "xs \<noteq> []" using n by auto
  have su: "sum_list (map u xs) = 0" using sum_list_dev_zero [OF ne M] by (simp add: u_def [abs_def])
  have elem: "\<forall>x \<in> set xs. (1 - 3 * eps) * (u x * u x) + 2 * (1 - eps) * (M - c0) * u x - K1 \<le> Sq x"
  proof
    fix x assume x: "x \<in> set xs"
    show "(1 - 3 * eps) * (u x * u x) + 2 * (1 - eps) * (M - c0) * u x - K1 \<le> Sq x"
      unfolding K1_def
    proof (rule ss_elem)
      show "D x = u x + (M - c0) + (D x - (of_nat x - c0))" by (simp add: u_def)
      show "\<bar>D x - (of_nat x - c0)\<bar> \<le> eps * \<bar>u x + (M - c0)\<bar> + eta" using dev x by (simp add: u_def)
    qed (use sq uB x mu e in \<open>auto simp: u_def\<close>)
  qed
  have s1: "(1 - 3 * eps) * sum_list (map (\<lambda>x. u x * u x) xs) + (2 * (1 - eps) * (M - c0)) * sum_list (map u xs)
      - N * K1 \<le> sum_list (map Sq xs)"
    using sum_list_lower [of xs "1 - 3 * eps" "\<lambda>x. u x * u x" "2 * (1 - eps) * (M - c0)" u K1 Sq] elem
    by (simp add: N_def algebra_simps)
  have "\<forall>x \<in> set xs. \<bar>1 / N\<bar> \<le> \<bar>u x\<bar>" using frac N by (simp add: u_def N_def)
  then have "\<forall>x \<in> set xs. 1 / N * (1 / N) \<le> u x * u x" by (metis abs_mult_self_eq abs_ge_zero mult_mono)
  then have "N * (1 / N * (1 / N)) \<le> sum_list (map (\<lambda>x. u x * u x) xs)"
    using sum_list_lower [of xs 0 "\<lambda>_. 0" 0 "\<lambda>_. 0" "- (1 / N * (1 / N))" "\<lambda>x. u x * u x"]
    by (simp add: N_def)
  then have s2: "1 / N \<le> sum_list (map (\<lambda>x. u x * u x) xs)" using N by simp
  have e3: "0 \<le> 1 - 3 * eps" using e by simp
  have s3: "(1 - 3 * eps) / N - N * K1 \<le> sum_list (map Sq xs)"
    using s1 su mult_left_mono [OF s2 e3] by simp
  have "\<forall>x \<in> set xs. \<bar>D x - u x\<bar> \<le> sg"
  proof
    fix x assume x: "x \<in> set xs"
    have "\<bar>of_nat x - M\<bar> \<le> B" using uB x by blast
    then have "\<bar>of_nat x - c0\<bar> \<le> B + rho" using mu abs_triangle_ineq [of "of_nat x - M" "M - c0"] by simp
    then have "eps * \<bar>of_nat x - c0\<bar> \<le> eps * (B + rho)" using e(1) by (rule mult_left_mono)
    then have "\<bar>D x - (of_nat x - c0)\<bar> \<le> eps * (B + rho) + eta" using dev x by fastforce
    then show "\<bar>D x - u x\<bar> \<le> sg"
      using mu abs_triangle_ineq [of "D x - (of_nat x - c0)" "M - c0"] by (simp add: u_def sg_def)
  qed
  then have "\<bar>sum_list (map (\<lambda>x. D x - u x) xs)\<bar> \<le> N * sg"
    unfolding N_def by (rule sum_list_abs_le [of xs "\<lambda>x. D x - u x" sg])
  moreover have "sum_list (map (\<lambda>x. D x - u x) xs) = sum_list (map D xs)"
    using su by (simp add: sum_list_subtractf)
  ultimately have "\<bar>sum_list (map D xs)\<bar> \<le> N * sg" by simp
  then have "(sum_list (map D xs)) ^ 2 \<le> (N * sg) ^ 2"
    by (metis abs_ge_zero power2_abs power_mono)
  then have s4: "(sum_list (map D xs)) ^ 2 / N \<le> N * sg ^ 2" using N by (simp add: divide_le_eq power2_eq_square algebra_simps)
  have "N * (N * (K1 + sg ^ 2)) \<le> 1/2 - 3 * eps" using budget by (simp add: N_def K1_def sg_def power2_eq_square algebra_simps)
  then have h: "N * K1 + N * sg ^ 2 \<le> (1/2 - 3 * eps) / N" using N by (simp add: le_divide_eq algebra_simps)
  have eq: "(1 - 3 * eps) / N = (1/2 - 3 * eps) / N + 1 / (2 * N)" using N by (simp add: field_simps)
  show ?thesis unfolding N_def [symmetric] using s3 s4 h eq by linarith
qed

lemma stdev_budget:
  fixes eps eta B N :: rat
  assumes h: "0 \<le> eta" "eta \<le> eps * eps" and e: "0 \<le> eps" "eps * 2 ^ 53 \<le> 1"
    and B: "1 \<le> B" and N: "0 \<le> N" "N * B \<le> 2 ^ 49"
  shows "N ^ 2 * (2 * B * (eps * (eps * B + eta) + eta) + eta +
      ((eps * B + eta) + eps * (B + (eps * B + eta)) + eta) ^ 2) \<le> 1/2 - 3 * eps"
proof -
  have e1: "eps \<le> 1 / 2 ^ 53" using e by (simp add: le_divide_eq mult.commute)
  then have e2: "eps \<le> 1/2" by simp
  have ee: "eps * eps \<le> eps" using e e2 by (simp add: mult_left_le)
  have hB: "eta \<le> eps * B" using h ee e B by (metis order_trans mult_left_mono mult.right_neutral)
  have rho: "eps * B + eta \<le> 2 * (eps * B)" using hB by (simp add: mult.commute)
  have epsB: "0 \<le> eps * B" using e B by simp
  have sg: "(eps * B + eta) + eps * (B + (eps * B + eta)) + eta \<le> 5 * (eps * B)"
  proof -
    have "eps * (B + (eps * B + eta)) \<le> eps * (B + 2 * (eps * B))" using rho e by (simp add: mult_left_mono)
    also have "\<dots> = eps * B + 2 * eps * (eps * B)" by (simp add: algebra_simps)
    also have "\<dots> \<le> eps * B + eps * B" using e2 epsB mult_right_mono [OF e2 epsB] by (simp add: algebra_simps)
    finally show ?thesis using rho hB by simp
  qed
  have sg0: "0 \<le> (eps * B + eta) + eps * (B + (eps * B + eta)) + eta" using h e B by simp
  have sq: "((eps * B + eta) + eps * (B + (eps * B + eta)) + eta) ^ 2 \<le> 25 * (eps * B) ^ 2"
    using power_mono [OF sg sg0, of 2] by (simp add: power_mult_distrib)
  have BB: "B \<le> B * B" using B by (simp add: mult_le_cancel_left1)
  have t1: "2 * B * (eps * (eps * B + eta) + eta) \<le> 6 * (eps * B) ^ 2"
  proof -
    have "eps * (eps * B + eta) + eta \<le> eps * (2 * (eps * B)) + eps * eps" using rho h e by (simp add: mult_left_mono add_mono)
    also have "\<dots> \<le> 3 * (eps * eps * B)"
    proof -
      have "eps * eps \<le> eps * eps * B" using mult_left_mono [OF B, of "eps * eps"] by simp
      then show ?thesis by (simp add: algebra_simps)
    qed
    finally have "2 * B * (eps * (eps * B + eta) + eta) \<le> 2 * B * (3 * (eps * eps * B))"
      using B by (simp add: mult_left_mono)
    then show ?thesis by (simp add: power2_eq_square algebra_simps)
  qed
  have t2: "eta \<le> (eps * B) ^ 2"
  proof -
    have "1 \<le> B * B" using mult_mono [OF B B] B by simp
    then have "eps * eps \<le> eps * eps * (B * B)" using mult_left_mono [of 1 "B * B" "eps * eps"] by simp
    then show ?thesis using h by (simp add: power2_eq_square algebra_simps)
  qed
  have T: "2 * B * (eps * (eps * B + eta) + eta) + eta +
      ((eps * B + eta) + eps * (B + (eps * B + eta)) + eta) ^ 2 \<le> 32 * (eps * B) ^ 2"
    using t1 t2 sq by simp
  have "N ^ 2 * (2 * B * (eps * (eps * B + eta) + eta) + eta +
      ((eps * B + eta) + eps * (B + (eps * B + eta)) + eta) ^ 2) \<le> N ^ 2 * (32 * (eps * B) ^ 2)"
    using T by (simp add: mult_left_mono)
  also have "\<dots> = 32 * (eps * (N * B)) ^ 2" by (simp add: power2_eq_square algebra_simps)
  also have "\<dots> \<le> 32 * (1 / 16) ^ 2"
  proof -
    have "eps * (N * B) \<le> 1 / 2 ^ 53 * 2 ^ 49" by (rule mult_mono [OF e1 N(2)]) (use N B in simp_all)
    then have "eps * (N * B) \<le> 1 / 16" by simp
    moreover have "0 \<le> eps * (N * B)" using e N B by simp
    ultimately show ?thesis by (simp add: power_mono)
  qed
  also have "\<dots> \<le> 1/2 - 3 * eps"
  proof -
    have "3 * eps \<le> 3 / 2 ^ 53" using e1 by simp
    then show ?thesis by (simp add: power2_eq_square)
  qed
  finally show ?thesis .
qed

subsection \<open>Lemmas: \<open>stdev\<close> returns a finite float\<close>

lemma round_rat_le: "round_rat q = Fin v \<Longrightarrow> \<bar>v\<bar> \<le> 2 * \<bar>q\<bar> + 1"
proof -
  assume r: "round_rat q = Fin v"
  have "\<bar>v - q\<bar> \<le> \<bar>q\<bar> / 2 ^ 53 + 1 / 2 ^ 1075" by (rule round_rat_err [OF r])
  moreover have "\<bar>q\<bar> / 2 ^ 53 \<le> \<bar>q\<bar>" by simp
  moreover have "(1::rat) / 2 ^ 1075 \<le> 1" by simp
  ultimately show ?thesis by linarith
qed

lemma round_rat_Fin:
  assumes "\<bar>q\<bar> \<le> 2 ^ 1023"
  shows "round_rat q = Fin (fin_val (round_rat q))"
  using round_rat_finite_abs [OF assms] by auto

lemma py_sqrt_ok: "0 \<le> q \<Longrightarrow> \<exists>s. py_sqrt (Fin q) = Inr (Fin s) \<and> 0 \<le> s"
  by (auto simp: sqrt_round_def Let_def pow2_def split: prod.splits)

lemma py_num_sqrt_ok:
  assumes "py_convert q = Inr v" "0 \<le> q" "q \<le> 2 ^ 1023"
  shows "\<exists>s. py_num_sqrt v = Inr (Fin s) \<and> 0 \<le> s"
proof -
  obtain n d where nd: "quotient_of q = (n, d)" by fastforce
  have qa: "\<bar>q\<bar> \<le> 2 ^ 1023" using assms(2,3) by simp
  obtain r where r: "round_rat q = Fin r" using round_rat_finite_abs [OF qa] by blast
  have r0: "0 \<le> r" using round_rat_nonneg [OF assms(2) r] .
  show ?thesis
  proof (cases "d = 1")
    case True
    then have "q = of_int n" using quotient_of_div [OF nd] by simp
    then have "v = IntVal n" "py_int_float n = Inr (Fin r)" using assms(1) nd True r by (simp_all add: py_convert_def py_int_float_def)
    then show ?thesis using py_sqrt_ok [OF r0] by simp
  next
    case False
    then have "v = FloatVal (Fin r)" using assms(1) nd r by (simp add: py_convert_def)
    then show ?thesis using py_sqrt_ok [OF r0] by simp
  qed
qed

lemma float_devs_exact:
  "\<forall>x \<in> set xs. x < 2 ^ 53 \<Longrightarrow> float_devs c xs = Inr (map (\<lambda>x. flt_sub (Fin (of_nat x)) c) xs)"
  by (induction xs) (simp_all add: py_int_float_def round_rat_nat)

lemma mean_bounds:
  assumes "xs \<noteq> []" "\<forall>x \<in> set xs. x \<le> B"
  shows "0 \<le> (of_nat (sum_list xs) / of_nat (length xs) :: rat) \<and> of_nat (sum_list xs) / of_nat (length xs) \<le> (of_nat B :: rat)"
proof -
  have "sum_list xs \<le> length xs * B" using sum_list_le_bound [OF assms(2)] .
  then have "(of_nat (sum_list xs) :: rat) \<le> of_nat (length xs) * of_nat B" by (metis of_nat_le_iff of_nat_mult)
  then show ?thesis using assms(1) by (simp add: divide_le_eq mult.commute)
qed

lemma dev_le_bound:
  assumes "0 \<le> M" "M \<le> of_nat B" "x \<le> B"
  shows "\<bar>of_nat x - M\<bar> \<le> (of_nat B :: rat)"
  using assms by (simp add: abs_le_iff)

lemma dev_frac:
  assumes "xs \<noteq> []" "M = of_nat (sum_list xs) / of_nat (length xs)" "snd (quotient_of M) \<noteq> 1"
  shows "1 / of_nat (length xs) \<le> \<bar>of_nat x - M\<bar>"
proof -
  define n where "n = length xs"
  have n: "(0::rat) < of_nat n" using assms(1) by (simp add: n_def)
  have z: "int n * int x - int (sum_list xs) \<noteq> 0"
  proof
    assume "int n * int x - int (sum_list xs) = 0"
    then have "of_nat (sum_list xs) = (of_nat n * of_nat x :: rat)" by (metis eq_iff_diff_eq_0 of_int_of_nat_eq of_nat_mult of_int_eq_iff)
    then have "M = of_int (int x)" using assms(2) n by (simp add: n_def)
    then show False using assms(3) by (simp add: quotient_of_int)
  qed
  then have "(1::rat) \<le> \<bar>of_int (int n * int x - int (sum_list xs))\<bar>" by linarith
  also have "of_int (int n * int x - int (sum_list xs)) = of_nat n * (of_nat x - (M::rat))"
    using assms(2) n by (simp add: n_def field_simps)
  finally have "1 \<le> of_nat n * \<bar>of_nat x - M\<bar>" by (simp add: abs_mult)
  then show ?thesis using n by (simp add: n_def divide_le_eq mult.commute)
qed

lemma sumsq_bound:
  assumes "2 \<le> length xs" "\<forall>x \<in> set xs. x \<le> B" "length xs * B \<le> 2 ^ 49" "0 \<le> M" "M \<le> of_nat B"
  shows "\<bar>sum_list (map (\<lambda>x. (of_nat x - M) * (of_nat x - M)) xs)\<bar> \<le> (2 ^ 98 :: rat)"
proof -
  have "\<forall>x \<in> set xs. \<bar>(of_nat x - M) * (of_nat x - M)\<bar> \<le> of_nat B * of_nat B"
  proof
    fix x assume "x \<in> set xs"
    then have d: "\<bar>of_nat x - M\<bar> \<le> of_nat B" using dev_le_bound [OF assms(4,5)] assms(2) by blast
    have "\<bar>of_nat x - M\<bar> * \<bar>of_nat x - M\<bar> \<le> of_nat B * of_nat B" by (rule mult_mono [OF d d]) simp_all
    then show "\<bar>(of_nat x - M) * (of_nat x - M)\<bar> \<le> of_nat B * of_nat B" by (simp add: abs_mult)
  qed
  then have "\<bar>sum_list (map (\<lambda>x. (of_nat x - M) * (of_nat x - M)) xs)\<bar> \<le> of_nat (length xs) * (of_nat B * of_nat B)"
    by (rule sum_list_abs_le)
  also have "\<dots> \<le> 2 ^ 49 * 2 ^ 49"
  proof -
    have nB: "(of_nat (length xs) * of_nat B :: rat) \<le> 2 ^ 49" using assms(3) by (metis of_nat_le_iff of_nat_mult of_nat_numeral of_nat_power)
    have "B \<le> length xs * B" using assms(1) by simp
    then have "B \<le> 2 ^ 49" using assms(3) by linarith
    then have "(of_nat B :: rat) \<le> 2 ^ 49" by (metis of_nat_le_iff of_nat_numeral of_nat_power)
    then have "of_nat (length xs) * of_nat B * of_nat B \<le> (2 ^ 49 * 2 ^ 49 :: rat)" using nB by (intro mult_mono) auto
    then show ?thesis by (simp add: mult.assoc)
  qed
  finally show ?thesis by simp
qed

lemma of_nat_sub_int_zero: "(of_nat x - (of_int m::rat) = 0) \<longleftrightarrow> int x = m"
proof -
  have "(of_nat x - (of_int m::rat) = 0) \<longleftrightarrow> (of_int (int x) = (of_int m :: rat))" by simp
  also have "\<dots> \<longleftrightarrow> int x = m" by (rule of_int_eq_iff)
  finally show ?thesis .
qed
lemma one_le_abs_of_int: "1 \<le> \<bar>k\<bar> \<Longrightarrow> (1::rat) \<le> \<bar>of_int k\<bar>"
proof -
  assume "1 \<le> \<bar>k\<bar>"
  then have "(of_int 1 :: rat) \<le> of_int \<bar>k\<bar>" by (simp only: of_int_le_iff)
  then show ?thesis by simp
qed
lemma le_of_mult_bound: "0 < B \<Longrightarrow> n * B \<le> (2::nat) ^ 49 \<Longrightarrow> n \<le> 2 ^ 49"
proof -
  assume "0 < B" "n * B \<le> 2 ^ 49"
  moreover have "n \<le> n * B" using \<open>0 < B\<close> by simp
  ultimately show ?thesis by linarith
qed
lemma of_nat_pred_le: "n \<le> (2::nat) ^ 49 \<Longrightarrow> of_nat (n - 1) \<le> (2 ^ 49 :: rat)"
proof -
  assume "n \<le> 2 ^ 49"
  then have "n - 1 \<le> 2 ^ 49" by simp
  then have "(of_nat (n - 1) :: rat) \<le> of_nat (2 ^ 49)" by (simp only: of_nat_le_iff)
  then show ?thesis by simp
qed

lemma py_num_sqrt_pos:
  assumes "py_convert q = Inr v" "1 / 2 ^ 1000 \<le> q" "q \<le> 2 ^ 1023"
  shows "\<exists>s. py_num_sqrt v = Inr (Fin s) \<and> 0 < s"
proof -
  obtain n d where nd: "quotient_of q = (n, d)" by fastforce
  have "(0::rat) < 1 / 2 ^ 1000" by simp
  then have q0: "0 \<le> q" using assms(2) by linarith
  have qa: "\<bar>q\<bar> \<le> 2 ^ 1023" using q0 assms(3) by simp
  obtain r where r: "round_rat q = Fin r" using round_rat_finite_abs [OF qa] by blast
  have r0: "0 < r" using round_rat_pos [OF assms(2) r] .
  show ?thesis
  proof (cases "d = 1")
    case True
    then have "q = of_int n" using quotient_of_div [OF nd] by simp
    then have "v = IntVal n" "py_int_float n = Inr (Fin r)" using assms(1) nd True r by (simp_all add: py_convert_def py_int_float_def)
    then show ?thesis using py_sqrt_pos [OF r0] by simp
  next
    case False
    then have "v = FloatVal (Fin r)" using assms(1) nd r by (simp add: py_convert_def)
    then show ?thesis using py_sqrt_pos [OF r0] by simp
  qed
qed

lemma py_num_sqrt_zero: "py_convert 0 = Inr v \<Longrightarrow> py_num_sqrt v = Inr (Fin 0)"
  by (auto simp: py_convert_def py_int_float_def round_rat_def double_of_ratio_def)

lemma sum_sq_zero: "sum_list (map (\<lambda>x. f x * f x) xs) = (0::rat) \<longleftrightarrow> (\<forall>x \<in> set xs. f x = 0)"
proof (induction xs)
  case (Cons y ys)
  have "0 \<le> sum_list (map (\<lambda>x. f x * f x) ys)" by (induction ys) simp_all
  moreover have "0 \<le> f y * f y" by simp
  ultimately show ?case using Cons.IH by (auto simp: add_nonneg_eq_0_iff)
qed simp

lemma ss_int_ok:
  assumes n: "2 \<le> length xs" and B: "\<forall>x \<in> set xs. x \<le> B" "length xs * B \<le> 2 ^ 49"
    and m: "of_int m = (of_nat (sum_list xs) / of_nat (length xs) :: rat)"
  shows "\<exists>s. rbind (ss_int xs m) py_num_sqrt = Inr (Fin s) \<and> 0 \<le> s \<and> (s = 0 \<longleftrightarrow> (\<forall>x \<in> set xs. int x = m))"
proof -
  define M where "M = (of_int m :: rat)"
  have ne: "xs \<noteq> []" using n by auto
  have Mb: "0 \<le> M" "M \<le> of_nat B" using mean_bounds [OF ne B(1)] m by (simp_all add: M_def)
  have ds: "map (\<lambda>x. of_int (int x - m)) xs = map (\<lambda>x. of_nat x - M) xs" by (simp add: M_def)
  have z: "sum_list (map (\<lambda>x. of_nat x - M) xs) = 0" using sum_list_dev_zero [OF ne] m by (simp add: M_def)
  define total where "total = sum_list (map (\<lambda>x. (of_nat x - M) * (of_nat x - M)) xs)"
  have t: "ss_total (map (\<lambda>d. d * d) (map (\<lambda>x. of_int (int x - m)) xs)) (map (\<lambda>x. of_int (int x - m)) xs) = total"
    unfolding ds using z by (simp add: ss_total_def total_def comp_def)
  have t0: "0 \<le> total" unfolding total_def by (induction xs) simp_all
  have tb: "total \<le> 2 ^ 98" using sumsq_bound [OF n B Mb] by (simp add: total_def)
  define q where "q = total / of_nat (length xs - 1)"
  have n1: "(1::rat) \<le> of_nat (length xs - 1)" using n by simp
  have q0: "0 \<le> q" using t0 n1 by (simp add: q_def)
  have "q \<le> total" using t0 n1 by (simp add: q_def divide_le_eq mult_le_cancel_left1)
  then have q1: "q \<le> 2 ^ 1023" using tb by simp
  obtain v where v: "py_convert q = Inr v" using py_convert_ok [OF q0 q1] by blast
  have si: "ss_int xs m = Inr v" using t t0 v by (simp add: ss_int_def Let_def q_def)
  have eqm: "(\<forall>x \<in> set xs. int x = m) \<longleftrightarrow> total = 0"
    unfolding total_def sum_sq_zero M_def of_nat_sub_int_zero ..
  show ?thesis
  proof (cases "total = 0")
    case True
    then have "py_num_sqrt v = Inr (Fin 0)" using v py_num_sqrt_zero by (simp add: q_def)
    then show ?thesis using si eqm True by simp
  next
    case False
    then obtain y where y: "y \<in> set xs" "int y \<noteq> m" using eqm by blast
    have "(1::rat) \<le> (of_nat y - M) * (of_nat y - M)"
    proof -
      have "1 \<le> \<bar>int y - m\<bar>" using y(2) by linarith
      then have "(1::rat) \<le> \<bar>of_int (int y - m)\<bar>" by (rule one_le_abs_of_int)
      then have "(1::rat) \<le> \<bar>of_nat y - M\<bar>" by (simp add: M_def)
      then have "(1::rat) * 1 \<le> \<bar>of_nat y - M\<bar> * \<bar>of_nat y - M\<bar>" by (intro mult_mono) auto
      then show ?thesis by (simp add: abs_mult_self_eq)
    qed
    also have "\<dots> \<le> total" unfolding total_def
      by (rule member_le_sum_list) (use y(1) in auto)
    finally have t1: "1 \<le> total" .
    have "0 < B"
    proof (rule ccontr)
      assume "\<not> 0 < B"
      then have "\<forall>x \<in> set xs. x = 0" using B(1) by auto
      then have "sum_list xs = 0" by (simp add: sum_list_eq_0_iff)
      then have "(of_int m :: rat) = 0" using m by (simp only: of_nat_0 div_0)
      then have "m = 0" by simp
      moreover have "y = 0" using y(1) \<open>\<forall>x \<in> set xs. x = 0\<close> by blast
      ultimately show False using y(2) by simp
    qed
    then have "length xs \<le> 2 ^ 49" using B(2) by (rule le_of_mult_bound)
    then have "of_nat (length xs - 1) \<le> (2 ^ 49 :: rat)" by (rule of_nat_pred_le)
    then have "1 / 2 ^ 49 \<le> q" using t1 n1 unfolding q_def by (intro frac_le) auto
    moreover have "(1::rat) / 2 ^ 1000 \<le> 1 / 2 ^ 49" by simp
    ultimately have "1 / 2 ^ 1000 \<le> q" by linarith
    then obtain sd where "py_num_sqrt v = Inr (Fin sd)" "0 < sd" using py_num_sqrt_pos [OF v _ q1] by blast
    then show ?thesis using si eqm False by simp
  qed
qed

lemma ss_float_ok:
  assumes n: "2 \<le> length xs" and B: "\<forall>x \<in> set xs. x \<le> B" "length xs * B \<le> 2 ^ 49"
    and M: "M = of_nat (sum_list xs) / of_nat (length xs)" and nq: "snd (quotient_of M) \<noteq> 1"
    and c: "round_rat M = Fin c0"
  shows "\<exists>s. rbind (ss_float xs (Fin c0)) py_num_sqrt = Inr (Fin s) \<and> 0 < s"
proof -
  define b where "b = (of_nat B :: rat)"
  define N where "N = (of_nat (length xs) :: rat)"
  have ne: "xs \<noteq> []" using n by auto
  have Mb: "0 \<le> M" "M \<le> b" using mean_bounds [OF ne B(1)] M by (simp_all add: b_def)
  have "B \<le> length xs * B" using n by simp
  then have Bn: "B \<le> 2 ^ 49" using B(2) by linarith
  have b49: "b \<le> 2 ^ 49" using Bn unfolding b_def by (metis of_nat_le_iff of_nat_numeral of_nat_power)
  have nb: "N * b \<le> 2 ^ 49" using B(2) unfolding N_def b_def by (metis of_nat_le_iff of_nat_mult of_nat_numeral of_nat_power)
  have b1: "1 \<le> b"
  proof (rule ccontr)
    assume "\<not> 1 \<le> b"
    then have "B = 0" by (simp add: b_def)
    then have "sum_list xs = 0" using B(1) by (simp add: sum_list_eq_0_iff)
    then have "M = 0" using M by (simp only: of_nat_0 div_0)
    then show False using nq by simp
  qed
  have xs53: "\<forall>x \<in> set xs. x < 2 ^ 53"
  proof
    fix x assume "x \<in> set xs"
    then have "x \<le> 2 ^ 49" using B(1) Bn by fastforce
    moreover have "(2::nat) ^ 49 < 2 ^ 53" by simp
    ultimately show "x < 2 ^ 53" by linarith
  qed
  have cb: "\<bar>c0\<bar> \<le> 2 * b + 1" using round_rat_le [OF c] Mb by simp
  define D where "D x = fin_val (round_rat (of_nat x - c0))" for x :: nat
  define Sq where "Sq x = fin_val (round_rat (D x * D x))" for x :: nat
  have xc: "\<forall>x \<in> set xs. \<bar>of_nat x - c0\<bar> \<le> 3 * b + 1"
    using B(1) cb unfolding b_def by (auto simp: abs_le_iff) 
  have b98: "9 * b * (9 * b) \<le> 2 ^ 1023"
  proof -
    have "b * b \<le> 2 ^ 49 * 2 ^ 49" using b49 b1 by (intro mult_mono) auto
    then show ?thesis by simp
  qed
  have Dx: "\<forall>x \<in> set xs. round_rat (of_nat x - c0) = Fin (D x) \<and> \<bar>D x\<bar> \<le> 9 * b"
  proof
    fix x assume x: "x \<in> set xs"
    have "\<bar>of_nat x - c0\<bar> \<le> 2 ^ 1023" using xc x b49 by fastforce
    then have r: "round_rat (of_nat x - c0) = Fin (D x)" unfolding D_def by (rule round_rat_Fin)
    then show "round_rat (of_nat x - c0) = Fin (D x) \<and> \<bar>D x\<bar> \<le> 9 * b" using round_rat_le [OF r] xc x b1 by fastforce
  qed
  have Sx: "\<forall>x \<in> set xs. round_rat (D x * D x) = Fin (Sq x) \<and> \<bar>Sq x\<bar> \<le> 163 * (b * b)"
  proof
    fix x assume x: "x \<in> set xs"
    have d: "\<bar>D x\<bar> \<le> 9 * b" using Dx x by blast
    have dd: "\<bar>D x * D x\<bar> \<le> 9 * b * (9 * b)" unfolding abs_mult by (rule mult_mono [OF d d]) (use b1 in simp_all)
    then have "\<bar>D x * D x\<bar> \<le> 2 ^ 1023" using b98 by linarith
    then have r: "round_rat (D x * D x) = Fin (Sq x)" unfolding Sq_def by (rule round_rat_Fin)
    have "1 \<le> b * b" using mult_mono [OF b1 b1] b1 by simp
    then show "round_rat (D x * D x) = Fin (Sq x) \<and> \<bar>Sq x\<bar> \<le> 163 * (b * b)" using round_rat_le [OF r] dd r b1 by simp
  qed
  have devs: "float_devs (Fin c0) xs = Inr (map (\<lambda>x. Fin (D x)) xs)"
    using float_devs_exact [OF xs53] Dx by simp
  have sqs: "map flt_sq (map (\<lambda>x. Fin (D x)) xs) = map (\<lambda>x. Fin (Sq x)) xs" using Sx by simp
  define total where "total = sum_list (map Sq xs) - (sum_list (map D xs)) ^ 2 / N"
  have tt: "ss_total (map fin_val (map (\<lambda>x. Fin (Sq x)) xs)) (map fin_val (map (\<lambda>x. Fin (D x)) xs)) = total"
    by (simp add: ss_total_def total_def N_def comp_def)
  have tl: "1 / (2 * N) \<le> total" unfolding total_def N_def
  proof (rule ss_total_lower [OF n M])
    show "\<forall>x \<in> set xs. 1 / of_nat (length xs) \<le> \<bar>of_nat x - M\<bar>" using dev_frac [OF ne M nq] by blast
    show "\<forall>x \<in> set xs. \<bar>of_nat x - M\<bar> \<le> b" using dev_le_bound [OF Mb [unfolded b_def]] B(1) by (simp add: b_def)
    show "\<bar>M - c0\<bar> \<le> 1 / 2 ^ 53 * b + 1 / 2 ^ 1075"
    proof -
      have "\<bar>c0 - M\<bar> \<le> \<bar>M\<bar> / 2 ^ 53 + 1 / 2 ^ 1075" by (rule round_rat_err [OF c])
      then show ?thesis using Mb by (simp add: abs_minus_commute divide_right_mono)
    qed
    show "\<forall>x \<in> set xs. \<bar>D x - (of_nat x - c0)\<bar> \<le> 1 / 2 ^ 53 * \<bar>of_nat x - c0\<bar> + 1 / 2 ^ 1075"
      using Dx round_rat_err by fastforce
    show "\<forall>x \<in> set xs. \<bar>Sq x - D x * D x\<bar> \<le> 1 / 2 ^ 53 * (D x * D x) + 1 / 2 ^ 1075"
      using Sx round_rat_err by fastforce
    show "of_nat (length xs) ^ 2 * (2 * b * (1 / 2 ^ 53 * (1 / 2 ^ 53 * b + 1 / 2 ^ 1075) + 1 / 2 ^ 1075) + 1 / 2 ^ 1075 +
        (1 / 2 ^ 53 * b + 1 / 2 ^ 1075 + 1 / 2 ^ 53 * (b + (1 / 2 ^ 53 * b + 1 / 2 ^ 1075)) + 1 / 2 ^ 1075) ^ 2)
      \<le> 1/2 - 3 * (1 / 2 ^ 53)"
      by (rule stdev_budget [OF _ _ _ _ b1 _ nb [unfolded N_def]]) simp_all
  qed simp_all
  have N1: "1 \<le> N" using n by (simp add: N_def)
  have "N \<le> N * b" using b1 N1 by (simp add: mult_le_cancel_left1)
  then have N49: "N \<le> 2 ^ 49" using nb by (rule order_trans)
  have "0 \<le> 1 / (2 * N)" using N1 by simp
  then have t0: "0 \<le> total" using tl by (rule order_trans)
  have "\<bar>sum_list (map Sq xs)\<bar> \<le> N * (163 * (b * b))" unfolding N_def using Sx by (intro sum_list_abs_le) blast
  moreover have "N * (163 * (b * b)) \<le> 2 ^ 1023"
  proof -
    have "N * b * b \<le> 2 ^ 49 * 2 ^ 49" using nb b49 b1 by (intro mult_mono) (auto simp: N_def)
    then show ?thesis by (simp add: algebra_simps)
  qed
  moreover have "0 \<le> (sum_list (map D xs)) ^ 2 / N" by (simp add: N_def)
  ultimately have tb: "total \<le> 2 ^ 1023" unfolding total_def by linarith
  define q where "q = total / of_nat (length xs - 1)"
  have n1: "(1::rat) \<le> of_nat (length xs - 1)" using n by simp
  have q0: "0 \<le> q" using t0 n1 by (simp add: q_def)
  have "q \<le> total" using t0 n1 by (simp add: q_def divide_le_eq mult_le_cancel_left1)
  then have q1: "\<bar>q\<bar> \<le> 2 ^ 1023" using tb q0 by simp
  obtain v where v: "round_rat q = Fin v" using round_rat_finite_abs [OF q1] by blast
  have nN: "of_nat (length xs - 1) \<le> N" by (simp add: N_def)
  have "0 < N * of_nat (length xs - 1)" using N1 n1 by simp
  then have "total / N \<le> q" unfolding q_def by (rule divide_left_mono [OF nN t0])
  moreover have "1 / (2 * N) / N \<le> total / N" by (rule divide_right_mono [OF tl]) (use N1 in simp)
  moreover have "(1::rat) / 2 ^ 1000 \<le> 1 / (2 * N) / N"
  proof -
    have "N * N \<le> 2 ^ 49 * 2 ^ 49" using N49 N1 by (intro mult_mono) auto
    moreover have "(2::rat) * (2 ^ 49 * 2 ^ 49) \<le> 2 ^ 1000" by simp
    ultimately have "2 * N * N \<le> 2 ^ 1000" by linarith
    then have "(1::rat) / 2 ^ 1000 \<le> 1 / (2 * N * N)" using N1 by (intro frac_le) auto
    then show ?thesis by simp
  qed
  ultimately have "1 / 2 ^ 1000 \<le> q" by linarith
  then have v0: "0 < v" using round_rat_pos v by blast
  have f1: "list_all is_fin (map (\<lambda>x. Fin (D x)) xs)" by (simp add: list_all_iff)
  have f2: "list_all is_fin (map (\<lambda>x. Fin (Sq x)) xs)" by (simp add: list_all_iff)
  have "ss_float xs (Fin c0) = rbind (py_assert (\<not> total < 0)) (\<lambda>_.
      case round_rat q of PInf \<Rightarrow> Inl OverflowError | NInf \<Rightarrow> Inl OverflowError | v \<Rightarrow> Inr (FloatVal v))"
    unfolding ss_float_def devs rbind_Inr Let_def sqs tt q_def using f1 f2 by (simp only: not_True_eq_False if_False)
  then have "ss_float xs (Fin c0) = Inr (FloatVal (Fin v))" using t0 v by simp
  then show ?thesis using py_sqrt_pos [OF v0] by simp
qed

lemma sum_list_const: "\<forall>x \<in> set xs. x = c \<Longrightarrow> sum_list xs = length xs * (c::nat)"
  by (induction xs) auto

lemma py_stdev_ok:
  assumes n: "2 \<le> length xs" and B: "\<forall>x \<in> set xs. x \<le> B" "length xs * B \<le> 2 ^ 49"
  shows "\<exists>s. py_stdev xs = Inr (Fin s) \<and> 0 \<le> s \<and> (s = 0 \<longleftrightarrow> (\<forall>x \<in> set xs. x = hd xs))"
proof -
  define M where "M = (of_nat (sum_list xs) / of_nat (length xs) :: rat)"
  obtain p q where pq: "quotient_of M = (p, q)" by fastforce
  have ne: "xs \<noteq> []" using n by auto
  have nl: "\<not> length xs < 2" using n by simp
  show ?thesis
  proof (cases "q = 1")
    case True
    then have Mp: "M = of_int p" using quotient_of_div [OF pq] by simp
    moreover have "py_mean xs = Inr (IntVal p)" using pq True ne by (simp add: py_mean_def py_convert_def M_def)
    moreover have "(\<forall>x \<in> set xs. int x = p) \<longleftrightarrow> (\<forall>x \<in> set xs. x = hd xs)"
    proof
      assume h: "\<forall>x \<in> set xs. int x = p"
      then have "int (hd xs) = p" using ne by simp
      then show "\<forall>x \<in> set xs. x = hd xs" using h by auto
    next
      assume h: "\<forall>x \<in> set xs. x = hd xs"
      then have "sum_list xs = length xs * hd xs" by (rule sum_list_const)
      then have "M = of_int (int (hd xs))" using ne by (simp add: M_def)
      then have "p = int (hd xs)" using Mp by simp
      then show "\<forall>x \<in> set xs. int x = p" using h by auto
    qed
    ultimately show ?thesis using ss_int_ok [OF n B, of p] nl by (simp add: py_stdev_def py_variance_def M_def)
  next
    case False
    have Mb: "0 \<le> M" "M \<le> of_nat B" using mean_bounds [OF ne B(1)] by (simp_all add: M_def)
    have "B \<le> length xs * B" using n by simp
    then have "B \<le> 2 ^ 49" using B(2) by linarith
    then have "(of_nat B :: rat) \<le> 2 ^ 49" by (metis of_nat_le_iff of_nat_numeral of_nat_power)
    then have "\<bar>M\<bar> \<le> 2 ^ 1023" using Mb by simp
    then obtain c0 where c: "round_rat M = Fin c0" using round_rat_finite_abs by blast
    have "py_mean xs = Inr (FloatVal (Fin c0))" using pq False ne c by (simp add: py_mean_def py_convert_def M_def)
    moreover have nq: "snd (quotient_of M) \<noteq> 1" using pq False by simp
    moreover have "\<not> (\<forall>x \<in> set xs. x = hd xs)"
    proof
      assume h: "\<forall>x \<in> set xs. x = hd xs"
      then have "sum_list xs = length xs * hd xs" by (rule sum_list_const)
      then have "M = of_int (int (hd xs))" using ne by (simp add: M_def)
      then show False using nq by (simp add: quotient_of_int)
    qed
    moreover obtain sd where "rbind (ss_float xs (Fin c0)) py_num_sqrt = Inr (Fin sd)" "0 < sd"
      using ss_float_ok [OF n B M_def nq c] by blast
    ultimately show ?thesis using nl by (simp add: py_stdev_def py_variance_def)
  qed
qed

subsection \<open>Lemmas: the Python types of mean and median\<close>

lemma py_convert_float: "py_convert q = Inr (FloatVal f) \<Longrightarrow> \<exists>r. f = Fin r"
  using round_rat_cases [of q] by (auto simp: py_convert_def split: prod.splits if_splits)

lemma py_truediv_float: "py_truediv a b = Inr f \<Longrightarrow> \<exists>r. f = Fin r"
  using double_of_ratio_cases [of a b] by (auto simp: py_truediv_def split: if_splits)

lemma frac_integral_iff:
  assumes "0 < n"
  shows "snd (quotient_of (of_nat s / of_nat n :: rat)) = 1 \<longleftrightarrow> n dvd s"
proof
  assume d: "n dvd s"
  then have "(of_nat s / of_nat n :: rat) = of_int (int (s div n))" using assms by (auto simp: of_nat_div)
  then show "snd (quotient_of (of_nat s / of_nat n :: rat)) = 1" by (simp add: quotient_of_int)
next
  assume q1: "snd (quotient_of (of_nat s / of_nat n :: rat)) = 1"
  obtain p where p: "quotient_of (of_nat s / of_nat n :: rat) = (p, 1)" using q1 by (metis prod.collapse)
  have "(of_nat s / of_nat n :: rat) = of_int p" using quotient_of_div [OF p] by simp
  then have "(of_nat s :: rat) = of_nat n * of_int p" using assms by (simp add: field_simps)
  then have "int s = int n * p" by (metis of_int_eq_iff of_int_mult of_int_of_nat_eq)
  then have "int n dvd int s" by simp
  then show "n dvd s" by simp
qed

lemma py_mean_type:
  assumes "xs \<noteq> []" "py_mean xs = Inr v"
  shows "((\<exists>i. v = IntVal i) \<longleftrightarrow> length xs dvd sum_list xs) \<and> (\<forall>f. v = FloatVal f \<longrightarrow> (\<exists>r. f = Fin r))"
proof -
  have n: "0 < length xs" using assms(1) by simp
  obtain p q where pq: "quotient_of (of_nat (sum_list xs) / of_nat (length xs) :: rat) = (p, q)" by fastforce
  have c: "py_convert (of_nat (sum_list xs) / of_nat (length xs)) = Inr v" using assms by (simp add: py_mean_def)
  have "(\<exists>i. v = IntVal i) \<longleftrightarrow> q = 1" using c pq
    by (auto simp: py_convert_def split: pyfloat.splits if_splits)
  moreover have "q = 1 \<longleftrightarrow> length xs dvd sum_list xs" using frac_integral_iff [OF n, of "sum_list xs"] pq by simp
  ultimately show ?thesis using py_convert_float c by blast
qed

lemma py_median_type:
  assumes "py_median xs = Inr v"
  shows "((\<exists>i. v = IntVal i) \<longleftrightarrow> odd (length xs)) \<and> (\<forall>f. v = FloatVal f \<longrightarrow> (\<exists>r. f = Fin r))"
  using assms py_truediv_float by (auto simp: py_median_def Let_def res_simps odd_iff_mod_2_eq_one split: if_splits)

end
