(* ===== verification/Sumstats.thy ===== *)
theory Sumstats
  imports PyFloat
begin

text \<open>
  One record of a Stacks populations sumstats file and the per-record filter of
  \<^verbatim>\<open>src/filter_sumstats_to_whitelist.py\<close>: the class \<open>SumstatsSite\<close> (lines 29--40),
  the field parsing of \<open>parse_sumstats\<close> (lines 59--68) and its minor-allele-frequency
  and Hardy-Weinberg filters (lines 69--78).
\<close>

record sumstats_site =
  locid :: int
  locol :: int
  chrom :: string
  bp :: int
  popid :: string
  pfreq :: pyfloat
  hwe :: pyfloat
  priv :: int

text \<open>\<open>line.strip('\n').split('\t')\<close>, then the eight fields in the order the code reads
  them, each raising \<open>IndexError\<close> on a short line or \<open>ValueError\<close> on a bad number.\<close>

definition sumstats_fields :: "string \<Rightarrow> string list" where
  "sumstats_fields line = py_split CHR 0x09 (py_strip [CHR 0x0A] line)"

definition parse_record :: "string \<Rightarrow> sumstats_site res" where
  "parse_record line =
     (let fields = sumstats_fields line in
      rbind (rbind (py_index fields 0) py_int) (\<lambda>loc_id.
      rbind (rbind (py_index fields 3) py_int) (\<lambda>loc_col.
      rbind (py_index fields 1) (\<lambda>chr.
      rbind (rbind (py_index fields 2) py_int) (\<lambda>bpos.
      rbind (py_index fields 4) (\<lambda>pop.
      rbind (rbind (py_index fields 8) py_float) (\<lambda>pv.
      rbind (rbind (py_index fields 19) py_float) (\<lambda>hwe_pv.
      rbind (rbind (py_index fields 20) py_int) (\<lambda>pr.
        Inr \<lparr>locid = loc_id, locol = loc_col, chrom = chr, bp = bpos, popid = pop,
             pfreq = pv, hwe = hwe_pv, priv = pr\<rparr>)))))))))"

text \<open>\<open>snp = f'{locid}_{locol}'\<close>.\<close>

definition snp_key :: "sumstats_site \<Rightarrow> string" where
  "snp_key site = str_int (locid site) @ CHR ''_'' # str_int (locol site)"

text \<open>The minor-allele-frequency filter: a record is skipped when \<open>1-p < maf\<close> for
  \<open>p >= 0.5\<close>, and when \<open>p < maf\<close> otherwise.\<close>

definition maf_filtered :: "pyfloat \<Rightarrow> pyfloat \<Rightarrow> bool" where
  "maf_filtered maf p \<longleftrightarrow>
     (if flt_ge p (Fin (1/2)) then flt_lt (flt_sub (Fin 1) p) maf else flt_lt p maf)"

text \<open>\<open>max_hwe_p\<close> is the literal \<open>0.05\<close> (the double nearest to \<open>5/100\<close>) with
  \<open>--hwe\<close> and \<open>0.0\<close> without; a record is skipped when \<open>hwe_p < max_hwe_p\<close>.\<close>

definition max_hwe_p :: "bool \<Rightarrow> pyfloat" where
  "max_hwe_p hwe_flag = (if hwe_flag then double_of_ratio 5 100 else Fin 0)"

definition hwe_filtered :: "pyfloat \<Rightarrow> pyfloat \<Rightarrow> bool" where
  "hwe_filtered max_p hwe_p \<longleftrightarrow> flt_lt hwe_p max_p"

definition record_passes :: "pyfloat \<Rightarrow> bool \<Rightarrow> sumstats_site \<Rightarrow> bool" where
  "record_passes maf hwe_flag site \<longleftrightarrow>
     \<not> maf_filtered maf (pfreq site) \<and> \<not> hwe_filtered (max_hwe_p hwe_flag) (hwe site)"

lemmas sumstats_eval = float_eval parse_record_def sumstats_fields_def py_int_def record_passes_def
  maf_filtered_def flt_ge_def flt_le_def max_hwe_p_def hwe_filtered_def py_startswith_def

text \<open>
The minor-allele-frequency filter is not symmetric in the
binary64 arithmetic the script uses: with \<open>--maf 0.1\<close>, a record with
\<open>p = 0.1\<close> is kept (\<open>0.1 < 0.1\<close> is false) while a record with
\<open>p = 0.9\<close> is dropped, because \<open>1 - 0.9\<close> rounds to a double below
\<open>float('0.1')\<close>. Both numbers are read by \<^const>\<open>py_float\<close> as the
script's \<open>float()\<close> reads them.
\<close>
lemma maf_filter_float_asymmetry:
  "\<exists>m p9. py_float ''0.1'' = Inr m \<and> py_float ''0.9'' = Inr p9 \<and> \<not> maf_filtered m m \<and> maf_filtered m p9"
proof -
  have m: "py_float ''0.1'' = Inr (Fin (7205759403792794 / 72057594037927936))"
    by (simp add: float_eval)
  have p: "py_float ''0.9'' = Inr (Fin (8106479329266893 / 9007199254740992))"
    by (simp add: float_eval)
  have a: "\<not> maf_filtered (Fin (7205759403792794 / 72057594037927936)) (Fin (7205759403792794 / 72057594037927936))"
    by (simp add: maf_filtered_def flt_ge_def flt_le_def)
  have b: "maf_filtered (Fin (7205759403792794 / 72057594037927936)) (Fin (8106479329266893 / 9007199254740992))"
    by (simp add: maf_filtered_def flt_ge_def flt_le_def float_eval)
  show ?thesis using m p a b by blast
qed

text \<open>
C22 (functional). A record whose allele frequency or HWE p-value is \<open>nan\<close>
(which \<open>float()\<close> accepts) passes both filters, whatever the cutoffs: every
comparison with NaN is false, so neither \<open>continue\<close> is taken.
\<close>
theorem nan_passes_filters: "\<not> maf_filtered maf NaN \<and> \<not> hwe_filtered max_p NaN"
  by (simp add: maf_filtered_def hwe_filtered_def flt_ge_def flt_le_def)

end
