(* ===== verification/PyDict.thy ===== *)
theory PyDict
  imports Prelude "HOL-Library.AList"
begin

text \<open>
  Python dictionaries as association lists in insertion order, which is the order
  \<open>dict.keys()\<close> reports: \<open>d[k]\<close> raises \<open>KeyError\<close> for a missing key,
  \<open>d[k] = v\<close> replaces the value in place or appends the key (\<open>AList.update\<close>),
  and \<open>d.setdefault(k, v)\<close> appends \<open>k\<close> only when it is missing.
\<close>

type_synonym ('k, 'v) pydict = "('k \<times> 'v) list"

definition dict_get :: "('k, 'v) pydict \<Rightarrow> 'k \<Rightarrow> 'v res" where
  "dict_get d k = (case map_of d k of None \<Rightarrow> Inl KeyError | Some v \<Rightarrow> Inr v)"

definition dict_set :: "('k, 'v) pydict \<Rightarrow> 'k \<Rightarrow> 'v \<Rightarrow> ('k, 'v) pydict" where
  "dict_set d k v = AList.update k v d"

definition dict_setdefault :: "('k, 'v) pydict \<Rightarrow> 'k \<Rightarrow> 'v \<Rightarrow> ('k, 'v) pydict" where
  "dict_setdefault d k v = (case map_of d k of None \<Rightarrow> AList.update k v d | Some _ \<Rightarrow> d)"

definition dict_keys :: "('k, 'v) pydict \<Rightarrow> 'k list" where
  "dict_keys d = map fst d"

lemma map_of_dict_set [simp]: "map_of (dict_set d k v) = (map_of d)(k \<mapsto> v)"
  by (simp add: dict_set_def update_conv')

lemma map_of_dict_setdefault:
  "map_of (dict_setdefault d k v) = (case map_of d k of None \<Rightarrow> (map_of d)(k \<mapsto> v) | Some _ \<Rightarrow> map_of d)"
  by (simp add: dict_setdefault_def update_conv' split: option.splits)

lemma dict_get_Some [simp]: "map_of d k = Some v \<Longrightarrow> dict_get d k = Inr v"
  by (simp add: dict_get_def)

lemma dict_get_setdefault_ex: "\<exists>v'. dict_get (dict_setdefault d k v) k = Inr v'"
  by (cases "map_of d k") (simp_all add: dict_get_def map_of_dict_setdefault)

lemma distinct_dict_set: "distinct (dict_keys d) \<Longrightarrow> distinct (dict_keys (dict_set d k v))"
  by (simp add: dict_keys_def dict_set_def distinct_update)

lemma distinct_dict_setdefault: "distinct (dict_keys d) \<Longrightarrow> distinct (dict_keys (dict_setdefault d k v))"
  by (simp add: dict_keys_def dict_setdefault_def distinct_update split: option.splits)

lemma set_dict_keys: "set (dict_keys d) = dom (map_of d)"
  by (simp add: dict_keys_def dom_map_of_conv_image_fst)

lemma list_all_dict_set: "list_all P d \<Longrightarrow> P (k, v) \<Longrightarrow> list_all P (dict_set d k v)"
  by (induction d) (auto simp: dict_set_def)

lemma dict_set_setdefault: "dict_set (dict_setdefault d k v) k w = dict_set d k w"
  by (simp add: dict_set_def dict_setdefault_def split: option.splits)

lemma dict_set_nonempty: "dict_set d k v \<noteq> []"
  by (simp add: dict_set_def)

end
