(* ===== verification/Grouper.thy ===== *)
theory Grouper
  imports Sumstats PyDict
begin

text \<open>
  The cross-population grouper of \<open>parse_sumstats\<close> in
  \<^verbatim>\<open>src/filter_sumstats_to_whitelist.py\<close> (lines 45--102): the loop keeps the key of
  the current SNP as the string \<open>f'{locid}_{locol}'\<close> and the records of it seen so far;
  when the key changes, the finished group is stored in the two-level dictionary
  \<open>sites_dict[locus][column]\<close> if it has exactly \<open>n_pops\<close> records, the key being read
  back from the string with \<open>int(prev_snp.split('_')[i])\<close>. The last group is stored
  after the loop.
\<close>

type_synonym sites_dict = "(int, (int, sumstats_site list) pydict) pydict"

record group_state =
  sites_dict :: sites_dict
  prev_snp :: "string option"
  pops_in_site :: "sumstats_site list"

definition init_group :: group_state where
  "init_group = \<lparr>sites_dict = [], prev_snp = None, pops_in_site = []\<rparr>"

text \<open>Lines 88--92 and 97--101: store the group of the key \<open>prev\<close> when it has
  \<open>n_pops\<close> records.\<close>

definition store_group :: "int \<Rightarrow> string \<Rightarrow> sumstats_site list \<Rightarrow> sites_dict \<Rightarrow> sites_dict res" where
  "store_group n_pops prev pops d =
     rbind (rbind (py_index (py_split CHR ''_'' prev) 0) py_int) (\<lambda>prev_loc.
     rbind (rbind (py_index (py_split CHR ''_'' prev) 1) py_int) (\<lambda>prev_col.
     if int (length pops) = n_pops then
       (let d1 = dict_setdefault d prev_loc [] in
        rbind (dict_get d1 prev_loc) (\<lambda>inner. Inr (dict_set d1 prev_loc (dict_set inner prev_col pops))))
     else Inr d))"

text \<open>Lines 79--96, for a record that passed the filters.\<close>

definition group_step :: "int \<Rightarrow> group_state \<Rightarrow> sumstats_site \<Rightarrow> group_state res" where
  "group_step n_pops st site =
     (let snp = snp_key site;
          prev = (case prev_snp st of None \<Rightarrow> snp | Some s \<Rightarrow> s) in
      if snp = prev then Inr (st\<lparr>prev_snp := Some snp, pops_in_site := pops_in_site st @ [site]\<rparr>)
      else rbind (store_group n_pops prev (pops_in_site st) (sites_dict st)) (\<lambda>d.
             Inr \<lparr>sites_dict = d, prev_snp = Some snp, pops_in_site = [site]\<rparr>))"

text \<open>Lines 57--96: one line of the file. Comment lines are skipped, the record is
  parsed, and the filters skip it before it reaches the grouper.\<close>

definition sumstats_line :: "int \<Rightarrow> pyfloat \<Rightarrow> bool \<Rightarrow> group_state \<Rightarrow> string \<Rightarrow> group_state res" where
  "sumstats_line n_pops maf hwe_flag st line =
     (if py_startswith ''#'' line then Inr st
      else rbind (parse_record line) (\<lambda>site.
        if maf_filtered maf (pfreq site) then Inr st
        else if hwe_filtered (max_hwe_p hwe_flag) (hwe site) then Inr st
        else group_step n_pops st site))"

fun sumstats_lines :: "int \<Rightarrow> pyfloat \<Rightarrow> bool \<Rightarrow> group_state \<Rightarrow> string list \<Rightarrow> group_state res" where
  "sumstats_lines n_pops maf hwe_flag st [] = Inr st"
| "sumstats_lines n_pops maf hwe_flag st (l # ls) =
     rbind (sumstats_line n_pops maf hwe_flag st l) (\<lambda>st'. sumstats_lines n_pops maf hwe_flag st' ls)"

text \<open>Lines 97--101: the last group is stored after the loop; \<open>prev_snp.split\<close>
  raises \<open>AttributeError\<close> when no record passed the filters.\<close>

definition flush_group :: "int \<Rightarrow> group_state \<Rightarrow> sites_dict res" where
  "flush_group n_pops st =
     (case prev_snp st of
        None \<Rightarrow> Inl AttributeError
      | Some prev \<Rightarrow> store_group n_pops prev (pops_in_site st) (sites_dict st))"

text \<open>\<open>parse_sumstats\<close>: the assertion on \<open>maf\<close> (line 46), the thresholds (47--50),
  the loop and the flush.\<close>

definition parse_sumstats :: "string list \<Rightarrow> int \<Rightarrow> pyfloat \<Rightarrow> bool \<Rightarrow> sites_dict res" where
  "parse_sumstats lines n_pops maf hwe_flag =
     rbind (py_assert (flt_le (Fin 0) maf \<and> flt_le maf (Fin (1/2)))) (\<lambda>_.
     rbind (sumstats_lines n_pops maf hwe_flag init_group lines) (flush_group n_pops))"

subsection \<open>Abstract specification of the grouping\<close>

text \<open>
  The key of a record as a pair, the two-level lookup \<open>sites_dict[l][c]\<close>, and what the
  grouper promises: for the records that pass the filters, in file order, the entry of a
  key \<open>(l, c)\<close> is the list of its records exactly when there are \<open>n_pops\<close> of them.
  The promise holds when the passing records of each key are contiguous, which the code
  assumes of its input.
\<close>

definition snp_pair :: "sumstats_site \<Rightarrow> int \<times> int" where
  "snp_pair s = (locid s, locol s)"

definition dict2_lookup :: "sites_dict \<Rightarrow> int \<Rightarrow> int \<Rightarrow> sumstats_site list option" where
  "dict2_lookup d l c = (case map_of d l of None \<Rightarrow> None | Some m \<Rightarrow> map_of m c)"

definition kept_spec :: "int \<Rightarrow> sumstats_site list \<Rightarrow> int \<Rightarrow> int \<Rightarrow> sumstats_site list option" where
  "kept_spec n_pops recs l c =
     (let g = filter (\<lambda>s. snp_pair s = (l, c)) recs in
      if g \<noteq> [] \<and> int (length g) = n_pops then Some g else None)"

definition keys_contiguous :: "sumstats_site list \<Rightarrow> bool" where
  "keys_contiguous recs \<longleftrightarrow> distinct (remdups_adj (map snp_pair recs))"

text \<open>The records of the file that pass the filters, or the first exception of the
  record parser.\<close>

fun passing_sites :: "pyfloat \<Rightarrow> bool \<Rightarrow> string list \<Rightarrow> sumstats_site list res" where
  "passing_sites maf hwe_flag [] = Inr []"
| "passing_sites maf hwe_flag (l # ls) =
     (if py_startswith ''#'' l then passing_sites maf hwe_flag ls
      else rbind (parse_record l) (\<lambda>s. rbind (passing_sites maf hwe_flag ls) (\<lambda>ss.
             Inr (if record_passes maf hwe_flag s then s # ss else ss))))"

text \<open>The store of a finished group, on the key as a pair.\<close>

definition store_pure :: "int \<Rightarrow> int \<times> int \<Rightarrow> sumstats_site list \<Rightarrow> sites_dict \<Rightarrow> sites_dict" where
  "store_pure n_pops k pops d =
     (if int (length pops) = n_pops then
        (let d1 = dict_setdefault d (fst k) [];
             inner = (case map_of d1 (fst k) of None \<Rightarrow> [] | Some m \<Rightarrow> m) in
         dict_set d1 (fst k) (dict_set inner (snd k) pops))
      else d)"

text \<open>The maximal runs of equal keys, starting with the run of key \<open>k\<close> holding \<open>g\<close>.\<close>

fun runs_acc :: "int \<times> int \<Rightarrow> sumstats_site list \<Rightarrow> sumstats_site list \<Rightarrow> ((int \<times> int) \<times> sumstats_site list) list" where
  "runs_acc k g [] = [(k, g)]"
| "runs_acc k g (s # ss) =
     (if snp_pair s = k then runs_acc k (g @ [s]) ss else (k, g) # runs_acc (snp_pair s) [s] ss)"

definition group_wf :: "group_state \<Rightarrow> bool" where
  "group_wf st \<longleftrightarrow> (case prev_snp st of None \<Rightarrow> True | Some p \<Rightarrow> (\<exists>s. p = snp_key s))"

fun group_steps :: "int \<Rightarrow> group_state \<Rightarrow> sumstats_site list \<Rightarrow> group_state res" where
  "group_steps n_pops st [] = Inr st"
| "group_steps n_pops st (s # ss) = rbind (group_step n_pops st s) (\<lambda>st'. group_steps n_pops st' ss)"

text \<open>The shape of the dictionary the grouper builds: distinct loci, and for each locus a
  non-empty inner dictionary with distinct columns. \<open>sample_kept_sites\<close> relies on it.\<close>

definition sites_wf :: "sites_dict \<Rightarrow> bool" where
  "sites_wf d \<longleftrightarrow> distinct (dict_keys d) \<and>
     list_all (\<lambda>(l, inner). inner \<noteq> [] \<and> distinct (dict_keys inner)) d"

text \<open>A small sumstats file: the key \<open>(1, 5)\<close> is seen in one population, the keys
  \<open>(2, 3)\<close> and \<open>(3, 7)\<close> in two; fields 0, 1, 2, 3, 4, 8, 19 and 20 are the locus,
  chromosome, position, column, population, \<open>p\<close>, HWE p-value and private count.\<close>

definition ex_row :: "string \<Rightarrow> string \<Rightarrow> string \<Rightarrow> string \<Rightarrow> string" where
  "ex_row loc col pop pv = py_join CHR 0x09 [loc, ''1'', ''100'', col, pop, ''1'', ''10'', ''0.5'', pv,
     ''0'', ''0'', ''0'', ''0'', ''0'', ''0'', ''0'', ''0'', ''0'', ''0'', ''1'', ''0''] @ [CHR 0x0A]"

definition ex_sumstats :: "string list" where
  "ex_sumstats = [''# Locus ID'' @ [CHR 0x0A], ex_row ''1'' ''5'' ''A'' ''0.25'', ex_row ''2'' ''3'' ''A'' ''0.5'',
     ex_row ''2'' ''3'' ''B'' ''0.75'', ex_row ''3'' ''7'' ''A'' ''0.5'', ex_row ''3'' ''7'' ''B'' ''0.25'']"

text \<open>Its records that pass with \<open>--maf 0\<close> and without \<open>--hwe\<close>, and the dictionary
  \<open>parse_sumstats\<close> builds from them for \<open>-p 2\<close>.\<close>

definition ex_site :: "int \<Rightarrow> int \<Rightarrow> string \<Rightarrow> rat \<Rightarrow> sumstats_site" where
  "ex_site l c pop pv = \<lparr>locid = l, locol = c, chrom = ''1'', bp = 100, popid = pop,
     pfreq = Fin pv, hwe = Fin 1, priv = 0\<rparr>"

definition ex_recs :: "sumstats_site list" where
  "ex_recs = [ex_site 1 5 ''A'' (1/4), ex_site 2 3 ''A'' (1/2), ex_site 2 3 ''B'' (3/4),
     ex_site 3 7 ''A'' (1/2), ex_site 3 7 ''B'' (1/4)]"

definition ex_dict :: sites_dict where
  "ex_dict = [(2, [(3, [ex_site 2 3 ''A'' (1/2), ex_site 2 3 ''B'' (3/4)])]),
     (3, [(7, [ex_site 3 7 ''A'' (1/2), ex_site 3 7 ''B'' (1/4)])])]"

subsection \<open>Lemmas: the key, the store, the loop\<close>

lemma py_split_snp_key: "py_split CHR ''_'' (snp_key s) = [str_int (locid s), str_int (locol s)]"
  by (simp add: snp_key_def py_split_append_sep py_split_no_sep no_underscore_str_int)

lemma snp_key_eq_iff: "snp_key s = snp_key s' \<longleftrightarrow> snp_pair s = snp_pair s'"
proof
  assume "snp_key s = snp_key s'"
  then have "py_split CHR ''_'' (snp_key s) = py_split CHR ''_'' (snp_key s')" by simp
  then have "py_int (str_int (locid s)) = py_int (str_int (locid s')) \<and>
             py_int (str_int (locol s)) = py_int (str_int (locol s'))"
    by (simp add: py_split_snp_key)
  then show "snp_pair s = snp_pair s'" by (simp add: snp_pair_def)
qed (simp add: snp_key_def snp_pair_def)

lemma store_group_key: "store_group n (snp_key s) g d = Inr (store_pure n (snp_pair s) g d)"
proof (cases "int (length g) = n")
  case True
  obtain v where v: "map_of (dict_setdefault d (locid s) []) (locid s) = Some v"
    by (cases "map_of d (locid s)") (auto simp: map_of_dict_setdefault)
  with True show ?thesis
    by (simp add: store_group_def store_pure_def py_split_snp_key snp_pair_def)
next
  case False
  then show ?thesis by (simp add: store_group_def store_pure_def py_split_snp_key)
qed

lemma dict2_lookup_store_pure:
  "dict2_lookup (store_pure n k g d) l c =
     (if (l, c) = k \<and> int (length g) = n then Some g else dict2_lookup d l c)"
  by (cases k) (auto simp: store_pure_def dict2_lookup_def map_of_dict_setdefault split: option.splits)

lemma group_step_wf:
  assumes "group_wf st"
  shows "\<exists>st'. group_step n st s = Inr st' \<and> group_wf st'"
proof (cases "prev_snp st")
  case None
  then show ?thesis by (auto simp: group_step_def group_wf_def)
next
  case (Some p)
  with assms obtain s0 where p: "p = snp_key s0" by (auto simp: group_wf_def)
  then show ?thesis using Some
    by (cases "snp_key s = snp_key s0") (auto simp: group_step_def group_wf_def store_group_key Let_def)
qed

lemma sumstats_lines_passing:
  "group_wf st \<Longrightarrow> sumstats_lines n maf h st ls = rbind (passing_sites maf h ls) (group_steps n st)"
proof (induction ls arbitrary: st)
  case Nil
  then show ?case by simp
next
  case (Cons l ls)
  show ?case
  proof (cases "py_startswith ''#'' l")
    case True
    with Cons show ?thesis by (simp add: sumstats_line_def)
  next
    case False
    show ?thesis
    proof (cases "parse_record l")
      case (Inl e)
      with False show ?thesis by (simp add: sumstats_line_def)
    next
      case (Inr s)
      show ?thesis
      proof (cases "record_passes maf h s")
        case True
        obtain st' where st': "group_step n st s = Inr st'" "group_wf st'"
          using group_step_wf [OF Cons.prems] by blast
        have "sumstats_line n maf h st l = Inr st'"
          using False Inr True st' by (simp add: sumstats_line_def record_passes_def)
        then show ?thesis
          using False Inr True st' Cons.IH [OF st'(2)]
          by (cases "passing_sites maf h ls") simp_all
      next
        case pass: False
        have "sumstats_line n maf h st l = Inr st"
          using False Inr pass by (auto simp: sumstats_line_def record_passes_def)
        then show ?thesis
          using False Inr pass Cons.IH [OF Cons.prems]
          by (cases "passing_sites maf h ls") simp_all
      qed
    qed
  qed
qed

lemma group_steps_runs:
  assumes "prev_snp st = Some (snp_key s0)"
  shows "rbind (group_steps n st ss) (flush_group n) =
         Inr (fold (\<lambda>(k, g) d. store_pure n k g d) (runs_acc (snp_pair s0) (pops_in_site st) ss) (sites_dict st))"
  using assms
proof (induction ss arbitrary: st s0)
  case Nil
  then show ?case by (simp add: flush_group_def store_group_key)
next
  case (Cons s ss)
  show ?case
  proof (cases "snp_pair s = snp_pair s0")
    case True
    then have "snp_key s = snp_key s0" by (simp add: snp_key_eq_iff)
    then have "group_step n st s = Inr (st\<lparr>prev_snp := Some (snp_key s), pops_in_site := pops_in_site st @ [s]\<rparr>)"
      using Cons.prems by (simp add: group_step_def)
    then show ?thesis
      using True Cons.IH [of "st\<lparr>prev_snp := Some (snp_key s), pops_in_site := pops_in_site st @ [s]\<rparr>" s]
      by simp
  next
    case False
    then have "snp_key s \<noteq> snp_key s0" by (simp add: snp_key_eq_iff)
    then have "group_step n st s = Inr \<lparr>sites_dict = store_pure n (snp_pair s0) (pops_in_site st) (sites_dict st),
                  prev_snp = Some (snp_key s), pops_in_site = [s]\<rparr>"
      using Cons.prems by (simp add: group_step_def store_group_key)
    then show ?thesis
      using False Cons.IH [of "\<lparr>sites_dict = store_pure n (snp_pair s0) (pops_in_site st) (sites_dict st),
                  prev_snp = Some (snp_key s), pops_in_site = [s]\<rparr>" s]
      by simp
  qed
qed

lemma runs_acc_keys: "map fst (runs_acc k g ss) = remdups_adj (k # map snp_pair ss)"
  by (induction k g ss rule: runs_acc.induct) auto

lemma map_of_runs_acc:
  assumes "distinct (remdups_adj (k # map snp_pair ss))" and "g \<noteq> []" and "\<forall>s \<in> set g. snp_pair s = k"
  shows "map_of (runs_acc k g ss) kc =
           (let g' = filter (\<lambda>s. snp_pair s = kc) (g @ ss) in if g' = [] then None else Some g')"
  using assms
proof (induction k g ss rule: runs_acc.induct)
  case (1 k g)
  then show ?case by (auto simp: Let_def filter_id_conv filter_empty_conv)
next
  case (2 k g s ss)
  show ?case
  proof (cases "snp_pair s = k")
    case True
    with "2.prems" have "distinct (remdups_adj (k # map snp_pair ss))" by simp
    with True "2.IH"(1) "2.prems" show ?thesis by simp
  next
    case False
    with "2.prems"(1) have d: "distinct (remdups_adj (snp_pair s # map snp_pair ss))"
      and k: "k \<notin> set (snp_pair s # map snp_pair ss)" by simp_all
    have IH: "map_of (runs_acc (snp_pair s) [s] ss) kc =
      (let g' = filter (\<lambda>x. snp_pair x = kc) ([s] @ ss) in if g' = [] then None else Some g')"
      using False d by (intro "2.IH"(2)) simp_all
    show ?thesis
    proof (cases "kc = k")
      case True
      with k "2.prems"(2,3) False show ?thesis
        by (auto simp: Let_def filter_id_conv filter_empty_conv)
    next
      case kc: False
      have "filter (\<lambda>x. snp_pair x = kc) g = []"
        using "2.prems"(3) kc by (auto simp: filter_empty_conv)
      with kc False IH show ?thesis by (simp add: Let_def)
    qed
  qed
qed

lemma dict2_lookup_fold_store:
  "distinct (map fst rs) \<Longrightarrow>
   dict2_lookup (fold (\<lambda>(k, g) d. store_pure n k g d) rs d) l c =
     (case map_of rs (l, c) of
        None \<Rightarrow> dict2_lookup d l c
      | Some g \<Rightarrow> if int (length g) = n then Some g else dict2_lookup d l c)"
proof (induction rs arbitrary: d)
  case Nil
  then show ?case by simp
next
  case (Cons r rs)
  obtain k g where r: "r = (k, g)" by (cases r)
  with Cons.prems have k: "k \<notin> fst ` set rs" and d: "distinct (map fst rs)" by auto
  show ?case
  proof (cases "(l, c) = k")
    case True
    with k have "map_of rs (l, c) = None" by (simp add: map_of_eq_None_iff)
    with True r Cons.IH [OF d] show ?thesis by (simp add: dict2_lookup_store_pure)
  next
    case False
    with r Cons.IH [OF d] show ?thesis
      by (simp add: dict2_lookup_store_pure split: option.splits)
  qed
qed

lemma dict2_lookup_Nil [simp]: "dict2_lookup [] l c = None"
  by (simp add: dict2_lookup_def)

lemma parse_sumstats_groups:
  assumes "flt_le (Fin 0) maf \<and> flt_le maf (Fin (1/2))" and "passing_sites maf hwe_flag lines = Inr (s1 # rest)"
    and "keys_contiguous (s1 # rest)"
  shows "parse_sumstats lines n maf hwe_flag =
           Inr (fold (\<lambda>(k, g) d. store_pure n k g d) (runs_acc (snp_pair s1) [s1] rest) [])"
proof -
  have wf: "group_wf init_group" by (simp add: group_wf_def init_group_def)
  have step: "group_step n init_group s1 = Inr \<lparr>sites_dict = [], prev_snp = Some (snp_key s1), pops_in_site = [s1]\<rparr>"
    by (simp add: group_step_def init_group_def)
  show ?thesis
    using assms(1,2) sumstats_lines_passing [OF wf, of n maf hwe_flag lines] step
      group_steps_runs [of "\<lparr>sites_dict = [], prev_snp = Some (snp_key s1), pops_in_site = [s1]\<rparr>" s1 n rest]
    by (simp add: parse_sumstats_def)
qed

subsection \<open>Lemmas: the shape of the dictionary\<close>

lemma sites_wf_store:
  assumes "sites_wf d" "dict_get (dict_setdefault d l []) l = Inr inner"
  shows "sites_wf (dict_set (dict_setdefault d l []) l (dict_set inner c pops))"
proof -
  have "distinct (dict_keys inner)"
  proof (cases "map_of d l")
    case None
    then show ?thesis using assms(2) by (simp add: dict_get_def map_of_dict_setdefault dict_keys_def)
  next
    case (Some v)
    then have "(l, v) \<in> set d" and "inner = v"
      using assms(2) by (auto simp: dict_get_def map_of_dict_setdefault dest: map_of_SomeD)
    then show ?thesis using assms(1) by (auto simp: sites_wf_def list_all_iff)
  qed
  then show ?thesis using assms(1)
    by (simp add: dict_set_setdefault sites_wf_def distinct_dict_set list_all_dict_set dict_set_nonempty)
qed

lemma store_group_wf: "store_group n p pops d = Inr d' \<Longrightarrow> sites_wf d \<Longrightarrow> sites_wf d'"
  by (auto simp: store_group_def Let_def res_simps sites_wf_store split: if_splits)

lemma group_step_sites_wf:
  "group_step n st s = Inr st' \<Longrightarrow> sites_wf (sites_dict st) \<Longrightarrow> sites_wf (sites_dict st')"
  by (auto simp: group_step_def Let_def res_simps store_group_wf split: if_splits)

lemma sumstats_lines_sites_wf:
  "sumstats_lines n maf h st ls = Inr st' \<Longrightarrow> sites_wf (sites_dict st) \<Longrightarrow> sites_wf (sites_dict st')"
proof (induction ls arbitrary: st)
  case Nil
  then show ?case by simp
next
  case (Cons l ls)
  then obtain st1 where "sumstats_line n maf h st l = Inr st1" "sumstats_lines n maf h st1 ls = Inr st'"
    by (auto simp: res_simps)
  moreover have "sites_wf (sites_dict st1)"
    using calculation(1) Cons.prems(2)
    by (auto simp: sumstats_line_def res_simps group_step_sites_wf split: if_splits)
  ultimately show ?case using Cons.IH by blast
qed

lemma parse_sumstats_sites_wf:
  assumes "parse_sumstats lines n maf hwe_flag = Inr d"
  shows "sites_wf d"
proof -
  obtain st where st: "sumstats_lines n maf hwe_flag init_group lines = Inr st"
    and f: "flush_group n st = Inr d"
    using assms by (auto simp: parse_sumstats_def res_simps)
  have "sites_wf (sites_dict st)"
    using sumstats_lines_sites_wf [OF st] by (simp add: init_group_def sites_wf_def dict_keys_def)
  then show ?thesis using f store_group_wf by (auto simp: flush_group_def split: option.splits)
qed

subsection \<open>The example file\<close>

lemma ex_sumstats_passing:
  "passing_sites (Fin 0) False ex_sumstats = Inr ex_recs"
  by (simp add: ex_sumstats_def ex_recs_def ex_site_def ex_row_def sumstats_eval)

lemma ex_sumstats_parsed:
  "parse_sumstats ex_sumstats 2 (Fin 0) False = Inr ex_dict"
proof -
  have m: "flt_le (Fin 0) (Fin 0) \<and> flt_le (Fin 0) (Fin (1/2))" by (simp add: flt_le_def)
  have c: "keys_contiguous ex_recs" by (simp add: keys_contiguous_def snp_pair_def ex_recs_def ex_site_def)
  show ?thesis
    using parse_sumstats_groups [OF m ex_sumstats_passing [unfolded ex_recs_def], of 2] c
    by (simp add: ex_recs_def ex_dict_def ex_site_def snp_pair_def store_pure_def dict_setdefault_def dict_set_def)
qed

subsection \<open>Properties of the grouper\<close>

text \<open>
  C2 (refinement). When the \<open>maf\<close> assertion holds, some record passes the filters, and
  the passing records of each SNP key are contiguous in the file, \<open>parse_sumstats\<close>
  returns a dictionary whose entry \<open>sites_dict[l][c]\<close> is present exactly for the keys
  observed in \<open>n_pops\<close> populations, and then holds those records in file order.
\<close>

theorem parse_sumstats_kept:
  assumes "flt_le (Fin 0) maf \<and> flt_le maf (Fin (1/2))" and "passing_sites maf hwe_flag lines = Inr recs"
    and "recs \<noteq> []" and "keys_contiguous recs"
  shows "\<exists>d. parse_sumstats lines n maf hwe_flag = Inr d \<and> (\<forall>l c. dict2_lookup d l c = kept_spec n recs l c)"
proof -
  obtain s1 rest where recs: "recs = s1 # rest" using assms(3) by (cases recs) auto
  let ?rs = "runs_acc (snp_pair s1) [s1] rest"
  have dist: "distinct (map fst ?rs)"
    using assms(4) recs by (simp add: runs_acc_keys keys_contiguous_def)
  have "\<And>l c. dict2_lookup (fold (\<lambda>(k, g) d. store_pure n k g d) ?rs []) l c = kept_spec n recs l c"
  proof -
    fix l c
    have "map_of ?rs (l, c) =
      (let g' = filter (\<lambda>s. snp_pair s = (l, c)) ([s1] @ rest) in if g' = [] then None else Some g')"
      using assms(4) recs by (intro map_of_runs_acc) (simp_all add: keys_contiguous_def)
    then show "dict2_lookup (fold (\<lambda>(k, g) d. store_pure n k g d) ?rs []) l c = kept_spec n recs l c"
      using dict2_lookup_fold_store [OF dist, of n "[]" l c] recs
      by (simp add: kept_spec_def Let_def split: if_splits)
  qed
  then show ?thesis
    using parse_sumstats_groups [OF assms(1) assms(2) [unfolded recs] assms(4) [unfolded recs], of n] recs
    by auto
qed

theorem parse_sumstats_kept_witness:
  "\<exists>d. parse_sumstats ex_sumstats 2 (Fin 0) False = Inr d \<and>
     dict2_lookup d 1 5 = None \<and>
     dict2_lookup d 2 3 = Some
       [\<lparr>locid = 2, locol = 3, chrom = ''1'', bp = 100, popid = ''A'', pfreq = Fin (1/2), hwe = Fin 1, priv = 0\<rparr>,
        \<lparr>locid = 2, locol = 3, chrom = ''1'', bp = 100, popid = ''B'', pfreq = Fin (3/4), hwe = Fin 1, priv = 0\<rparr>] \<and>
     dict2_lookup d 3 7 = Some
       [\<lparr>locid = 3, locol = 7, chrom = ''1'', bp = 100, popid = ''A'', pfreq = Fin (1/2), hwe = Fin 1, priv = 0\<rparr>,
        \<lparr>locid = 3, locol = 7, chrom = ''1'', bp = 100, popid = ''B'', pfreq = Fin (1/4), hwe = Fin 1, priv = 0\<rparr>]"
proof -
  let ?recs = "[\<lparr>locid = 1, locol = 5, chrom = ''1'', bp = 100, popid = ''A'', pfreq = Fin (1/4), hwe = Fin 1, priv = 0\<rparr>,
        \<lparr>locid = 2, locol = 3, chrom = ''1'', bp = 100, popid = ''A'', pfreq = Fin (1/2), hwe = Fin 1, priv = 0\<rparr>,
        \<lparr>locid = 2, locol = 3, chrom = ''1'', bp = 100, popid = ''B'', pfreq = Fin (3/4), hwe = Fin 1, priv = 0\<rparr>,
        \<lparr>locid = 3, locol = 7, chrom = ''1'', bp = 100, popid = ''A'', pfreq = Fin (1/2), hwe = Fin 1, priv = 0\<rparr>,
        \<lparr>locid = 3, locol = 7, chrom = ''1'', bp = 100, popid = ''B'', pfreq = Fin (1/4), hwe = Fin 1, priv = 0\<rparr>]"
  have m: "flt_le (Fin 0) (Fin 0) \<and> flt_le (Fin 0) (Fin (1/2))" by (simp add: flt_le_def)
  have p: "passing_sites (Fin 0) False ex_sumstats = Inr ?recs"
    by (simp add: ex_sumstats_def ex_row_def sumstats_eval)
  have ne: "?recs \<noteq> []" by simp
  have c: "keys_contiguous ?recs" by (simp add: keys_contiguous_def snp_pair_def)
  obtain d where d: "parse_sumstats ex_sumstats 2 (Fin 0) False = Inr d"
    and look: "\<And>l c. dict2_lookup d l c = kept_spec 2 ?recs l c"
    using parse_sumstats_kept [OF m p ne c, of 2] by blast
  show ?thesis
    using d by (intro exI [of _ d]) (simp add: look kept_spec_def snp_pair_def)
qed


text \<open>
C13 (error). When no record of the file passes the filters (an empty file,
a file of comments only, or every record filtered out), the flush after the
loop calls \<open>prev_snp.split\<close> on \<open>None\<close> and \<^const>\<open>parse_sumstats\<close>
raises AttributeError instead of returning an empty dictionary.
\<close>
theorem parse_sumstats_no_passing:
  assumes "flt_le (Fin 0) maf \<and> flt_le maf (Fin (1/2))" and "passing_sites maf hwe_flag lines = Inr []"
  shows "parse_sumstats lines n maf hwe_flag = Inl AttributeError"
proof -
  have wf: "group_wf init_group" by (simp add: group_wf_def init_group_def)
  show ?thesis
    using sumstats_lines_passing [OF wf, of n maf hwe_flag lines] assms
    by (simp add: parse_sumstats_def flush_group_def init_group_def)
qed

theorem parse_sumstats_no_passing_witness:
  "parse_sumstats [''# Locus ID'' @ [CHR 0x0A], ex_row ''1'' ''5'' ''A'' ''0.25''] 1 (Fin (1/2)) False = Inl AttributeError"
proof -
  have m: "flt_le (Fin 0) (Fin (1/2)) \<and> flt_le (Fin (1/2)) (Fin (1/2))" by (simp add: flt_le_def)
  have p: "passing_sites (Fin (1/2)) False [''# Locus ID'' @ [CHR 0x0A], ex_row ''1'' ''5'' ''A'' ''0.25''] = Inr []"
    by (simp add: ex_row_def sumstats_eval)
  show ?thesis by (rule parse_sumstats_no_passing [OF m p])
qed

text \<open>
C20 (error). A cutoff outside \<open>[0, 0.5]\<close>, or a NaN cutoff, fails the
first assertion of \<^const>\<open>parse_sumstats\<close> before any line is read.
\<close>
theorem parse_sumstats_maf_assert:
  assumes "\<not> (flt_le (Fin 0) maf \<and> flt_le maf (Fin (1/2)))"
  shows "parse_sumstats lines n maf hwe_flag = Inl AssertionError"
  using assms by (simp only: parse_sumstats_def py_assert_def if_False rbind_Inl)

theorem parse_sumstats_maf_assert_witness:
  "parse_sumstats ex_sumstats 2 (Fin (-1/10)) False = Inl AssertionError \<and>
   parse_sumstats ex_sumstats 2 NaN False = Inl AssertionError"
proof -
  have a: "\<not> (flt_le (Fin 0) (Fin (-1/10)) \<and> flt_le (Fin (-1/10)) (Fin (1/2)))" by (simp add: flt_le_def)
  have b: "\<not> (flt_le (Fin 0) NaN \<and> flt_le NaN (Fin (1/2)))" by (simp add: flt_le_def)
  show ?thesis using parse_sumstats_maf_assert [OF a] parse_sumstats_maf_assert [OF b] by simp
qed

text \<open>
  C5 (invariant). Whenever \<open>parse_sumstats\<close> returns, its dictionary has distinct
  loci, and each locus maps to a non-empty dictionary with distinct columns: a locus
  is only created by \<open>setdefault\<close> immediately before a column is stored in it.
\<close>
theorem parse_sumstats_wf:
  assumes "parse_sumstats lines n maf hwe_flag = Inr d"
  shows "sites_wf d"
  using parse_sumstats_sites_wf [OF assms] .

theorem parse_sumstats_wf_witness:
  "parse_sumstats ex_sumstats 2 (Fin 0) False = Inr ex_dict \<and> sites_wf ex_dict"
  using parse_sumstats_wf [OF ex_sumstats_parsed] ex_sumstats_parsed by simp

text \<open>
  The single loop of \<open>parse_sumstats\<close>, which parses, filters and
  groups each line in turn, is equivalent to two passes: first read and filter the whole
  file (\<open>passing_sites\<close>), then group the passing records (\<open>group_steps\<close>) and flush.
  Filtering never looks at the grouping state, and an exception while reading a line
  pre-empts everything after it in both.
\<close>
lemma parse_sumstats_two_phase:
  "parse_sumstats lines n maf hwe_flag =
     (if flt_le (Fin 0) maf \<and> flt_le maf (Fin (1/2))
      then rbind (passing_sites maf hwe_flag lines) (\<lambda>recs.
             rbind (group_steps n init_group recs) (flush_group n))
      else Inl AssertionError)"
proof -
  have wf: "group_wf init_group" by (simp add: group_wf_def init_group_def)
  show ?thesis
    using sumstats_lines_passing [OF wf, of n maf hwe_flag lines]
    by (cases "passing_sites maf hwe_flag lines") (simp_all add: parse_sumstats_def py_assert_def)
qed

end
