(* ===== verification/Sampler.thy ===== *)
theory Sampler
  imports Grouper "HOL-Library.Multiset"
begin

text \<open>
  \<open>sample_kept_sites\<close> of \<^verbatim>\<open>src/filter_sumstats_to_whitelist.py\<close> (lines 105--116)
  and the two library routines it calls, \<open>random.sample\<close> and \<open>random.choice\<close>
  (CPython 3.10, \<^verbatim>\<open>Lib/random.py\<close>, not part of the repository). The generator is a
  parameter: \<open>rb n g\<close> is \<open>randbelow(n)\<close> in generator state \<open>g\<close>, returning the draw and
  the next state. The properties hold for every generator whose draws are in range
  (\<open>rand_ok\<close>), which is what CPython's \<open>_randbelow\<close> guarantees.
\<close>

type_synonym 'g randbelow = "nat \<Rightarrow> 'g \<Rightarrow> nat \<times> 'g"

definition rand_ok :: "'g randbelow \<Rightarrow> bool" where
  "rand_ok rb \<longleftrightarrow> (\<forall>n g. 0 < n \<longrightarrow> fst (rb n g) < n)"

text \<open>The set branch of \<open>random.sample\<close> only ends when the generator eventually
  draws an index not yet selected; \<open>rand_fair\<close> says that every value below \<open>n\<close> is
  eventually drawn by repeated calls \<open>randbelow(n)\<close>, from every state.\<close>

definition rand_fair :: "'g randbelow \<Rightarrow> bool" where
  "rand_fair rb \<longleftrightarrow> (\<forall>n g j. j < n \<longrightarrow> (\<exists>i. fst (rb n (((\<lambda>g. snd (rb n g)) ^^ i) g)) = j))"

subsection \<open>\<open>random.sample\<close>\<close>

text \<open>The pool branch: \<open>j = randbelow(n - i); result[i] = pool[j];
  pool[j] = pool[n - i - 1]\<close> for \<open>i\<close> in \<open>range(k)\<close>; \<open>m\<close> counts the iterations left.\<close>

fun pool_loop :: "'g randbelow \<Rightarrow> nat \<Rightarrow> nat \<Rightarrow> nat \<Rightarrow> 'a list \<Rightarrow> 'g \<Rightarrow> ('a list \<times> 'g) res" where
  "pool_loop rb n i 0 pool g = Inr ([], g)"
| "pool_loop rb n i (Suc m) pool g =
     (let (j, g1) = rb (n - i) g in
      rbind (py_index pool j) (\<lambda>x.
      rbind (py_index pool (n - i - 1)) (\<lambda>y.
      rbind (py_list_set pool j y) (\<lambda>pool'.
      rbind (pool_loop rb n (Suc i) m pool' g1) (\<lambda>(xs, g2). Inr (x # xs, g2))))))"

text \<open>The set branch draws \<open>j = randbelow(n)\<close> again while \<open>j\<close> is already selected;
  that inner loop need not end for an arbitrary generator, so it is a partial function
  (\<open>None\<close>: it runs forever).\<close>

partial_function (option) redraw :: "'g randbelow \<Rightarrow> nat \<Rightarrow> nat list \<Rightarrow> 'g \<Rightarrow> (nat \<times> 'g) option" where
  "redraw rb n selected g =
     (case rb n g of (j, g') \<Rightarrow> if j \<in> set selected then redraw rb n selected g' else Some (j, g'))"

declare redraw.simps [code]

fun set_loop :: "'g randbelow \<Rightarrow> 'a list \<Rightarrow> nat \<Rightarrow> nat \<Rightarrow> nat list \<Rightarrow> 'g \<Rightarrow> ('a list \<times> 'g) res option" where
  "set_loop rb population n 0 selected g = Some (Inr ([], g))"
| "set_loop rb population n (Suc m) selected g =
     (case redraw rb n selected g of
        None \<Rightarrow> None
      | Some (j, g1) \<Rightarrow>
          (case py_index population j of
             Inl e \<Rightarrow> Some (Inl e)
           | Inr x \<Rightarrow> map_option (map_sum id (\<lambda>(xs, g2). (x # xs, g2)))
                        (set_loop rb population n m (j # selected) g1)))"

text \<open>\<open>_ceil(_log(x, 4))\<close> for \<open>x \<ge> 1\<close>: the least \<open>c\<close> with \<open>x \<le> 4^c\<close>.\<close>

fun clog4 :: "nat \<Rightarrow> nat" where
  "clog4 x = (if x \<le> 1 then 0 else Suc (clog4 ((x + 3) div 4)))"

declare clog4.simps [simp del]

definition sample_setsize :: "nat \<Rightarrow> nat" where
  "sample_setsize k = 21 + (if 5 < k then 4 ^ clog4 (k * 3) else 0)"

definition py_sample :: "'g randbelow \<Rightarrow> 'a list \<Rightarrow> int \<Rightarrow> 'g \<Rightarrow> ('a list \<times> 'g) res option" where
  "py_sample rb population k g =
     (let n = length population in
      if \<not> (0 \<le> k \<and> k \<le> int n) then Some (Inl ValueError)
      else if n \<le> sample_setsize (nat k) then Some (pool_loop rb n 0 (nat k) population g)
      else set_loop rb population n (nat k) [] g)"

text \<open>\<open>random.choice(seq)\<close>: \<open>IndexError\<close> on an empty sequence.\<close>

definition py_choice :: "'g randbelow \<Rightarrow> 'a list \<Rightarrow> 'g \<Rightarrow> ('a \<times> 'g) res" where
  "py_choice rb seq g =
     (if seq = [] then Inl IndexError
      else (case rb (length seq) g of (j, g') \<Rightarrow> rbind (py_index seq j) (\<lambda>x. Inr (x, g'))))"

subsection \<open>\<open>sample_kept_sites\<close>\<close>

text \<open>What the function leaves behind: nothing when the dictionary is empty, otherwise
  whether it printed the warning and the rows \<open>loc\tcol\<close> of \<open>snp_whitelist.tsv\<close>.\<close>

datatype whitelist = NoOutput | Written bool "(int \<times> int) list"

text \<open>Lines 113--115: for each sampled locus in ascending order, a column chosen among
  the keys of \<open>sites_dict[loc]\<close>.\<close>

fun choose_cols :: "'g randbelow \<Rightarrow> sites_dict \<Rightarrow> int list \<Rightarrow> 'g \<Rightarrow> ((int \<times> int) list \<times> 'g) res" where
  "choose_cols rb d [] g = Inr ([], g)"
| "choose_cols rb d (loc # locs) g =
     rbind (dict_get d loc) (\<lambda>inner.
     rbind (py_choice rb (dict_keys inner) g) (\<lambda>(col, g1).
     rbind (choose_cols rb d locs g1) (\<lambda>(rows, g2). Inr ((loc, col) # rows, g2))))"

definition sample_kept_sites :: "'g randbelow \<Rightarrow> sites_dict \<Rightarrow> int \<Rightarrow> 'g \<Rightarrow> (whitelist \<times> 'g) res option" where
  "sample_kept_sites rb d n_sites g =
     (if length d = 0 then Some (Inr (NoOutput, g))
      else
        (let warn = (int (length d) < n_sites);
             n = (if warn then int (length d) else n_sites) in
         case py_sample rb (dict_keys d) n g of
           None \<Rightarrow> None
         | Some (Inl e) \<Rightarrow> Some (Inl e)
         | Some (Inr (kept_loci, g1)) \<Rightarrow>
             Some (map_sum id (\<lambda>(rows, g2). (Written warn rows, g2))
                     (choose_cols rb d (sort kept_loci) g1))))"

text \<open>A deterministic generator for examples: \<open>randbelow(n)\<close> returns the state
  modulo \<open>n\<close> and advances the state by one.\<close>

definition counter_rb :: "nat randbelow" where
  "counter_rb n g = (g mod n, Suc g)"

text \<open>A generator whose draws are in range but always \<open>0\<close>, and a dictionary of 22 loci
  with one column each.\<close>

definition const_rb :: "nat randbelow" where
  "const_rb n g = (0, g)"

definition ex_many :: sites_dict where
  "ex_many = map (\<lambda>l. (int l, [(0, [])])) [0..<22]"

subsection \<open>Lemmas: \<open>random.sample\<close>\<close>

lemma mset_take_swap_out:
  assumes "j < t" "t \<le> length p"
  shows "mset (take (t - 1) (p[j := p ! (t - 1)])) = mset (take t p) - {# p ! j #}"
proof (cases "j = t - 1")
  case True
  have "take t p = take (t - 1) p @ [p ! (t - 1)]"
    using assms by (metis Suc_diff_1 Suc_le_lessD gr_implies_not0 neq0_conv take_Suc_conv_app_nth)
  then show ?thesis using True by simp
next
  case False
  then have j: "j < t - 1" using assms(1) by simp
  have tk: "take t p = take (t - 1) p @ [p ! (t - 1)]"
    using assms by (metis Suc_diff_1 Suc_le_lessD gr_implies_not0 neq0_conv take_Suc_conv_app_nth)
  have "take (t - 1) (p[j := p ! (t - 1)]) = (take (t - 1) p)[j := p ! (t - 1)]"
    by (simp add: take_update_swap)
  moreover have "mset ((take (t - 1) p)[j := p ! (t - 1)]) =
      add_mset (p ! (t - 1)) (mset (take (t - 1) p) - {# p ! j #})"
    using j assms by (simp add: mset_update)
  moreover have "p ! j \<in># mset (take (t - 1) p)"
    using j assms by (simp add: in_set_conv_nth) (metis nth_take)
  ultimately show ?thesis using tk by simp
qed

lemma pool_loop_sample:
  assumes "rand_ok rb" "i + m \<le> n" "length pool = n"
  shows "\<exists>xs g'. pool_loop rb n i m pool g = Inr (xs, g') \<and> length xs = m \<and> mset xs \<subseteq># mset (take (n - i) pool)"
  using assms(2,3)
proof (induction m arbitrary: i pool g)
  case 0
  then show ?case by simp
next
  case (Suc m)
  obtain j g1 where rb: "rb (n - i) g = (j, g1)" by fastforce
  have "0 < n - i" using Suc.prems by simp
  then have j: "j < n - i" using assms(1) rb unfolding rand_ok_def by (metis fst_conv)
  define pool' where "pool' = pool[j := pool ! (n - i - 1)]"
  have l': "length pool' = n" using Suc.prems by (simp add: pool'_def)
  obtain xs g' where rec: "pool_loop rb n (Suc i) m pool' g1 = Inr (xs, g')" "length xs = m"
      "mset xs \<subseteq># mset (take (n - Suc i) pool')"
    using Suc.IH [of "Suc i" pool' g1] Suc.prems l' by auto
  have sw: "mset (take (n - Suc i) pool') = mset (take (n - i) pool) - {# pool ! j #}"
    using mset_take_swap_out [of j "n - i" pool] j Suc.prems by (simp add: pool'_def)
  have mem: "pool ! j \<in># mset (take (n - i) pool)"
    using j Suc.prems by (simp add: in_set_conv_nth) (metis nth_take)
  have "pool_loop rb n i (Suc m) pool g = Inr (pool ! j # xs, g')"
    using rb j Suc.prems rec(1) by (simp add: pool'_def)
  moreover have "mset (pool ! j # xs) \<subseteq># mset (take (n - i) pool)"
    using rec(3) sw mem by (simp add: insert_subset_eq_iff)
  ultimately show ?case using rec(2) by auto
qed

lemma redraw_sound:
  "redraw rb n sel g = Some r \<Longrightarrow> rand_ok rb \<longrightarrow> 0 < n \<longrightarrow> fst r < n \<and> fst r \<notin> set sel"
proof (erule redraw.raw_induct [rotated], goal_cases)
  case (1 redraw' rb n sel g r)
  obtain j g1 where d: "rb n g = (j, g1)" by fastforce
  show ?case
  proof (cases "j \<in> set sel")
    case True
    then show ?thesis using 1 d by simp
  next
    case False
    have r: "r = (j, g1)" using 1(2) d False by simp
    have "rand_ok rb \<longrightarrow> 0 < n \<longrightarrow> j < n" unfolding rand_ok_def using d by (metis fst_conv)
    then show ?thesis using r False by simp
  qed
qed

lemma redraw_terminates:
  "fst (rb n (((\<lambda>g. snd (rb n g)) ^^ i) g)) \<notin> set sel \<Longrightarrow> \<exists>r. redraw rb n sel g = Some r"
proof (induction i arbitrary: g)
  case 0
  then show ?case by (subst redraw.simps) (auto split: prod.splits)
next
  case (Suc i)
  then have "\<exists>r. redraw rb n sel (snd (rb n g)) = Some r" by (simp add: funpow_Suc_right del: funpow.simps)
  then show ?case by (subst redraw.simps) (auto split: prod.splits)
qed

lemma exists_unselected:
  assumes "distinct sel" "set sel \<subseteq> {..<n}" "length sel < n"
  shows "\<exists>j<n. j \<notin> set sel"
proof (rule ccontr)
  assume "\<not> ?thesis"
  then have "{..<n} \<subseteq> set sel" by auto
  then have "n \<le> card (set sel)" using card_mono [of "set sel" "{..<n}"] by simp
  with assms show False by (simp add: distinct_card)
qed

lemma redraw_fair:
  assumes "rand_ok rb" "rand_fair rb" "distinct sel" "set sel \<subseteq> {..<n}" "length sel < n"
  shows "\<exists>j g'. redraw rb n sel g = Some (j, g') \<and> j < n \<and> j \<notin> set sel"
proof -
  obtain j where "j < n" "j \<notin> set sel" using exists_unselected [OF assms(3-5)] by blast
  then obtain i where "fst (rb n (((\<lambda>g. snd (rb n g)) ^^ i) g)) \<notin> set sel"
    using assms(2) unfolding rand_fair_def by metis
  then obtain j' g' where r: "redraw rb n sel g = Some (j', g')" using redraw_terminates by fastforce
  have "0 < n" using assms(5) by simp
  then show ?thesis using r redraw_sound [OF r] assms(1) by auto
qed

lemma set_loop_sample:
  assumes "rand_ok rb" "rand_fair rb" "length pop = n"
  shows "distinct sel \<Longrightarrow> set sel \<subseteq> {..<n} \<Longrightarrow> length sel + m \<le> n \<Longrightarrow>
    \<exists>js g'. set_loop rb pop n m sel g = Some (Inr (map ((!) pop) js, g')) \<and> length js = m \<and>
      distinct (js @ sel) \<and> set js \<subseteq> {..<n}"
proof (induction m arbitrary: sel g)
  case 0
  then show ?case by simp
next
  case (Suc m)
  obtain j g1 where r: "redraw rb n sel g = Some (j, g1)" "j < n" "j \<notin> set sel"
    using redraw_fair [OF assms(1,2) Suc.prems(1,2)] Suc.prems(3) by fastforce
  obtain js g' where IH: "set_loop rb pop n m (j # sel) g1 = Some (Inr (map ((!) pop) js, g'))"
      "length js = m" "distinct (js @ j # sel)" "set js \<subseteq> {..<n}"
    using Suc.IH [of "j # sel" g1] Suc.prems r by auto
  have "set_loop rb pop n (Suc m) sel g = Some (Inr (map ((!) pop) (j # js), g'))"
    using r IH(1) assms(3) by simp
  moreover have "distinct ((j # js) @ sel)" using IH(3) by auto
  ultimately show ?case using IH(2,4) r(2) by (metis length_Cons insert_subset lessThan_iff list.simps(15))
qed

lemma mset_map_nth_subset:
  assumes "distinct js" "set js \<subseteq> {..<length p}"
  shows "mset (map ((!) p) js) \<subseteq># mset p"
proof -
  have "mset js \<subseteq># mset [0..<length p]"
    using assms subset_imp_msubset_mset_set [of "set js" "{0..<length p}"]
    by (simp add: mset_set_set [symmetric] lessThan_atLeast0)
  then have "image_mset ((!) p) (mset js) \<subseteq># image_mset ((!) p) (mset [0..<length p])"
    by (rule image_mset_subseteq_mono)
  then show ?thesis by (metis map_nth mset_map)
qed

subsection \<open>Lemmas: \<open>random.choice\<close> and \<open>sample_kept_sites\<close>\<close>

lemma py_sample_sound:
  assumes "rand_ok rb" "rand_fair rb" "0 \<le> k" "k \<le> int (length pop)"
  shows "\<exists>xs g'. py_sample rb pop k g = Some (Inr (xs, g')) \<and> length xs = nat k \<and> mset xs \<subseteq># mset pop"
proof -
  have kn: "nat k \<le> length pop" using assms(4) by (simp add: nat_le_iff)
  show ?thesis
  proof (cases "length pop \<le> sample_setsize (nat k)")
  case True
  obtain xs g' where "pool_loop rb (length pop) 0 (nat k) pop g = Inr (xs, g')" "length xs = nat k"
      "mset xs \<subseteq># mset (take (length pop - 0) pop)"
    using pool_loop_sample [OF assms(1), of 0 "nat k" "length pop" pop g] kn by auto
  then show ?thesis using True assms(3,4) by (simp add: py_sample_def)
next
  case False
  obtain js g' where "set_loop rb pop (length pop) (nat k) [] g = Some (Inr (map ((!) pop) js, g'))"
      "length js = nat k" "distinct js" "set js \<subseteq> {..<length pop}"
    using set_loop_sample [OF assms(1,2), of pop "length pop" "[]" "nat k" g] kn by auto
  then show ?thesis using False assms(3,4) mset_map_nth_subset by (simp add: py_sample_def)
  qed
qed

lemma py_choice_in:
  assumes "rand_ok rb" "seq \<noteq> []"
  shows "\<exists>x g'. py_choice rb seq g = Inr (x, g') \<and> x \<in> set seq"
proof -
  obtain j g' where d: "rb (length seq) g = (j, g')" by fastforce
  have "j < length seq" using assms d unfolding rand_ok_def by (metis fst_conv length_greater_0_conv)
  then show ?thesis using assms(2) d by (simp add: py_choice_def)
qed

lemma sites_wf_lookup:
  assumes "sites_wf d" "loc \<in> set (dict_keys d)"
  shows "\<exists>inner. dict_get d loc = Inr inner \<and> inner \<noteq> []"
proof -
  obtain inner where "map_of d loc = Some inner"
    using assms(2) by (auto simp: dict_keys_def dest: weak_map_of_SomeI)
  moreover then have "(loc, inner) \<in> set d" by (rule map_of_SomeD)
  ultimately show ?thesis using assms(1) by (auto simp: sites_wf_def list_all_iff)
qed

lemma choose_cols_rows:
  assumes "rand_ok rb" "sites_wf d"
  shows "set locs \<subseteq> set (dict_keys d) \<Longrightarrow>
    \<exists>rows g'. choose_cols rb d locs g = Inr (rows, g') \<and> map fst rows = locs \<and>
      (\<forall>(l, c) \<in> set rows. dict2_lookup d l c \<noteq> None)"
proof (induction locs arbitrary: g)
  case Nil
  then show ?case by simp
next
  case (Cons loc locs)
  obtain inner where inner: "dict_get d loc = Inr inner" "inner \<noteq> []"
    using sites_wf_lookup [OF assms(2)] Cons.prems by auto
  then have ne: "dict_keys inner \<noteq> []" by (simp add: dict_keys_def)
  obtain col g1 where col: "py_choice rb (dict_keys inner) g = Inr (col, g1)" "col \<in> set (dict_keys inner)"
    using py_choice_in [OF assms(1) ne] by blast
  obtain rows g' where rows: "choose_cols rb d locs g1 = Inr (rows, g')" "map fst rows = locs"
      "\<forall>(l, c) \<in> set rows. dict2_lookup d l c \<noteq> None"
    using Cons.IH [of g1] Cons.prems by auto
  have "dict2_lookup d loc col \<noteq> None"
    using inner(1) col(2) by (auto simp: dict2_lookup_def dict_get_def dict_keys_def split: option.splits
        dest: weak_map_of_SomeI)
  then show ?case using inner(1) col(1) rows by auto
qed

lemma sorted_distinct_less: "distinct xs \<Longrightarrow> sorted_wrt (<) (sort xs)"
  by (simp add: strict_sorted_iff)

lemma distinct_mset_subset: "mset xs \<subseteq># mset ys \<Longrightarrow> distinct ys \<Longrightarrow> distinct xs"
proof (induction xs arbitrary: ys)
  case Nil
  then show ?case by simp
next
  case (Cons x xs)
  have sub: "mset xs \<subseteq># mset (remove1 x ys)" using Cons.prems(1) by (simp add: insert_subset_eq_iff)
  have d: "distinct (remove1 x ys)" using Cons.prems(2) by simp
  have "set xs \<subseteq> set (remove1 x ys)" using set_mset_mono [OF sub] unfolding set_mset_mset .
  then have "x \<notin> set xs" using Cons.prems(2) by auto
  then show ?case using Cons.IH [OF sub d] by simp
qed
subsection \<open>The example generator\<close>

lemma counter_rb_ok: "rand_ok counter_rb"
  by (simp add: rand_ok_def counter_rb_def)

lemma counter_rb_iter: "((\<lambda>g. snd (counter_rb n g)) ^^ i) g = g + i"
  by (induction i) (simp_all add: counter_rb_def)

lemma counter_rb_fair: "rand_fair counter_rb"
  unfolding rand_fair_def
proof (intro allI impI)
  fix n g j :: nat
  assume j: "j < n"
  have "g mod n < n" using j by simp
  moreover have "g div n * n + g mod n = g" by simp
  ultimately have e: "g + (n - g mod n + j) = n + g div n * n + j" by arith
  have "n + g div n * n + j = j + (g div n + 1) * n" by simp
  then have "(n + g div n * n + j) mod n = j" using j by (metis mod_mult_self1 mod_less)
  then have "(g + (n - g mod n + j)) mod n = j" unfolding e .
  then have "fst (counter_rb n (((\<lambda>g. snd (counter_rb n g)) ^^ (n - g mod n + j)) g)) = j"
    by (simp only: counter_rb_iter) (simp only: counter_rb_def fst_conv)
  then show "\<exists>i. fst (counter_rb n (((\<lambda>g. snd (counter_rb n g)) ^^ i) g)) = j" ..
qed

subsection \<open>Lemmas: an unfair generator\<close>

lemma redraw_const: "redraw rb n sel g = Some r \<Longrightarrow> rb = const_rb \<longrightarrow> 0 \<in> set sel \<longrightarrow> False"
proof (erule redraw.raw_induct [rotated], goal_cases)
  case (1 redraw' rb n sel g r)
  show ?case
  proof (intro impI)
    assume rb: "rb = const_rb" and z: "0 \<in> set sel"
    then have "redraw' rb n sel g = Some r" using 1(2) by (simp add: const_rb_def)
    from 1(1) [OF this] show False using rb z by blast
  qed
qed

lemma redraw_const_None: "0 \<in> set sel \<Longrightarrow> redraw const_rb n sel g = None"
  using redraw_const [of const_rb n sel g] by (cases "redraw const_rb n sel g") auto

lemma redraw_const_first: "redraw const_rb n [] g = Some (0, g)"
  by (subst redraw.simps) (simp add: const_rb_def)

lemma clog4_bound: "x \<le> 4 ^ clog4 x"
proof (induction x rule: clog4.induct)
  case (1 x)
  show ?case
  proof (cases "x \<le> 1")
    case True
    then show ?thesis by (subst clog4.simps) simp
  next
    case False
    then have "(x + 3) div 4 \<le> 4 ^ clog4 ((x + 3) div 4)" using 1 by simp
    then have "x \<le> 4 ^ Suc (clog4 ((x + 3) div 4))" by simp
    then show ?thesis using False by (subst clog4.simps) simp
  qed
qed

lemma sample_setsize_ge: "k \<le> sample_setsize k"
  using clog4_bound [of "k * 3"] by (auto simp: sample_setsize_def)

lemma sample_kept_sites_some:
  assumes "rand_ok rb" "rand_fair rb" "0 \<le> n_sites"
  shows "\<exists>r. sample_kept_sites rb d n_sites g = Some r"
proof (cases "length d = 0")
  case True
  then show ?thesis by (simp add: sample_kept_sites_def)
next
  case False
  define n where "n = (if int (length d) < n_sites then int (length d) else n_sites)"
  have n: "0 \<le> n" "n \<le> int (length (dict_keys d))" using assms(3) by (auto simp: n_def dict_keys_def)
  obtain xs g1 where "py_sample rb (dict_keys d) n g = Some (Inr (xs, g1))"
    using py_sample_sound [OF assms(1,2) n] by blast
  then show ?thesis using False by (simp add: sample_kept_sites_def n_def [symmetric] Let_def)
qed

subsection \<open>Properties of the sampler\<close>

lemma sample_kept_sites_rows:
  assumes "rand_ok rb" "rand_fair rb" "sites_wf d" "d \<noteq> []" "0 \<le> n_sites"
  shows "\<exists>rows g'. sample_kept_sites rb d n_sites g = Some (Inr (Written (int (length d) < n_sites) rows, g')) \<and>
     length rows = min (nat n_sites) (length d) \<and> sorted_wrt (<) (map fst rows) \<and>
     (\<forall>(l, c) \<in> set rows. dict2_lookup d l c \<noteq> None)"
proof -
  define n where "n = (if int (length d) < n_sites then int (length d) else n_sites)"
  have n: "0 \<le> n" "n \<le> int (length (dict_keys d))" "nat n = min (nat n_sites) (length d)"
    using assms(5) by (auto simp: n_def dict_keys_def)
  obtain xs g1 where xs: "py_sample rb (dict_keys d) n g = Some (Inr (xs, g1))" "length xs = nat n"
      "mset xs \<subseteq># mset (dict_keys d)"
    using py_sample_sound [OF assms(1,2) n(1,2)] by blast
  have dk: "distinct (dict_keys d)" using assms(3) by (simp add: sites_wf_def)
  have dx: "distinct xs" using distinct_mset_subset [OF xs(3) dk] .
  have "set (sort xs) \<subseteq> set (dict_keys d)"
    using set_mset_mono [OF xs(3)] unfolding set_mset_mset by simp
  then obtain rows g' where rows: "choose_cols rb d (sort xs) g1 = Inr (rows, g')" "map fst rows = sort xs"
      "\<forall>(l, c) \<in> set rows. dict2_lookup d l c \<noteq> None"
    using choose_cols_rows [OF assms(1,3)] by blast
  have "length rows = min (nat n_sites) (length d)"
    using rows(2) xs(2) n(3) by (metis length_map length_sort)
  moreover have "sorted_wrt (<) (map fst rows)" using rows(2) dx by (simp add: strict_sorted_iff)
  moreover have "sample_kept_sites rb d n_sites g = Some (Inr (Written (int (length d) < n_sites) rows, g'))"
    using assms(4) xs(1) rows(1) by (simp add: sample_kept_sites_def n_def [symmetric] Let_def)
  ultimately show ?thesis using rows(3) by blast
qed

text \<open>
  C3 (functional). For a non-empty dictionary of the shape \<open>parse_sumstats\<close> builds, a
  non-negative \<open>n_sites\<close> and a generator whose draws are in range and eventually hit
  every value, \<open>sample_kept_sites\<close> returns (both loops of \<open>random.sample\<close> end), raises
  no exception, warns exactly when \<open>n_sites\<close> exceeds the number of loci, and writes
  \<open>min(n_sites, len(sites_dict))\<close> rows whose loci are strictly ascending (so distinct)
  and whose column is stored under that locus.
\<close>
theorem sample_kept_sites_whitelist:
  assumes "rand_ok rb" "rand_fair rb" "sites_wf d" "d \<noteq> []" "0 \<le> n_sites"
  shows "\<exists>rows g'. sample_kept_sites rb d n_sites g = Some (Inr (Written (int (length d) < n_sites) rows, g')) \<and>
     length rows = min (nat n_sites) (length d) \<and> sorted_wrt (<) (map fst rows) \<and>
     (\<forall>(l, c) \<in> set rows. dict2_lookup d l c \<noteq> None)"
  using sample_kept_sites_rows [OF assms] .

theorem sample_kept_sites_whitelist_witness:
  "\<exists>rows g'. sample_kept_sites counter_rb ex_dict 5 0 = Some (Inr (Written True rows, g')) \<and>
     length rows = 2 \<and> sorted_wrt (<) (map fst rows) \<and> (\<forall>(l, c) \<in> set rows. dict2_lookup ex_dict l c \<noteq> None)"
proof -
  have wf: "sites_wf ex_dict" by (simp add: sites_wf_def ex_dict_def dict_keys_def)
  have ne: "ex_dict \<noteq> []" by (simp add: ex_dict_def)
  have len: "length ex_dict = 2" by (simp add: ex_dict_def)
  show ?thesis
    using sample_kept_sites_whitelist [OF counter_rb_ok counter_rb_fair wf ne, of 5 0] len
    by simp
qed

text \<open>\<open>clog4\<close> is the exact ceiling of the base-4 logarithm: the least \<open>c\<close> with
  \<open>x \<le> 4^c\<close>.\<close>

lemma clog4_least: "clog4 x = (LEAST c. x \<le> 4 ^ c)"
proof (induction x rule: clog4.induct)
  case (1 x)
  show ?case
  proof (cases "x \<le> 1")
    case True
    then show ?thesis by (subst clog4.simps) simp
  next
    case False
    have step: "\<And>c. ((x + 3) div 4 \<le> 4 ^ c) = (x \<le> 4 ^ Suc c)" by auto
    have "x < 4 ^ x"
    proof (induction x)
      case (Suc x)
      have "0 < (4::nat) ^ x" by simp
      with Suc show ?case by simp
    qed simp
    then have ex: "x \<le> 4 ^ x" by simp
    have "(LEAST c. x \<le> 4 ^ c) = Suc (LEAST c. x \<le> 4 ^ Suc c)"
      by (rule Least_Suc [where P = "\<lambda>c. x \<le> 4 ^ c", OF ex]) (use False in simp)
    then show ?thesis using 1 False step by (subst clog4.simps) simp
  qed
qed

text \<open>
  Drawing in range is not enough for \<open>sample_kept_sites\<close> to return: with
  a generator that always draws \<open>0\<close>, asking for two or more loci from a dictionary larger
  than \<open>setsize\<close> sends \<open>random.sample\<close> into its set branch, whose redraw loop never
  finds a second unselected index, so the function runs forever.
\<close>
lemma sample_kept_sites_unfair:
  assumes "2 \<le> n_sites" "sample_setsize (nat n_sites) < length d"
  shows "rand_ok const_rb \<and> sample_kept_sites const_rb d n_sites g = None"
proof -
  define m where "m = nat n_sites - 2"
  have m: "nat n_sites = Suc (Suc m)" using assms(1) by (simp add: m_def)
  have nw: "\<not> int (length d) < n_sites" using assms sample_setsize_ge [of "nat n_sites"] by linarith
  have ne: "length d \<noteq> 0" using assms(2) by linarith
  have br: "\<not> length (dict_keys d) \<le> sample_setsize (nat n_sites)" using assms(2) by (simp add: dict_keys_def)
  have rng: "0 \<le> n_sites \<and> n_sites \<le> int (length (dict_keys d))" using assms(1) nw by (simp add: dict_keys_def)
  have k0: "0 < length (dict_keys d)" using ne by (simp add: dict_keys_def)
  have "set_loop const_rb (dict_keys d) (length (dict_keys d)) (Suc (Suc m)) [] g = None"
    using k0 by (simp add: redraw_const_first redraw_const_None)
  then have "py_sample const_rb (dict_keys d) n_sites g = None"
    using br rng m by (simp add: py_sample_def Let_def)
  moreover have "rand_ok const_rb" by (simp add: rand_ok_def const_rb_def)
  ultimately show ?thesis using nw ne by (simp add: sample_kept_sites_def Let_def)
qed

end
