(* ===== verification/HetReport.thy ===== *)
theory HetReport
  imports VcfTally PyStats
begin

text \<open>
  The report phase of \<open>process_vcf\<close> in \<^verbatim>\<open>src/calculate_idnv_obs_het.py\<close>
  (lines 153--178): one row per sample with the two proportions of heterozygous sites
  (lines 160--168), the fraction of variant sites (line 171), and the mean, median and
  standard deviation of the heterozygous counts from Python 3.10's \<open>statistics\<close>
  module (lines 172--174). The rows and numbers are the values the code formats; the
  formatting itself (\<open>:.08f\<close>, \<open>:,.03f\<close>) is not modelled, nor is the value of the
  standard deviation (a floating-point \<open>_ss\<close> around the rounded mean and a
  \<open>math.sqrt\<close>), only its \<open>StatisticsError\<close>.
\<close>

text \<open>One output row (line 167).\<close>

record het_row =
  row_sample :: string
  row_total :: nat
  row_variant :: nat
  row_sites :: nat
  row_vars :: nat
  row_hets :: nat
  prop_total :: pyfloat
  prop_vars :: pyfloat

text \<open>Lines 160--168: \<open>for i in range(len(samples))\<close>, reading the three counters of
  sample \<open>i\<close> and dividing.\<close>

fun het_rows :: "vcf_tally \<Rightarrow> nat \<Rightarrow> string list \<Rightarrow> het_row list res" where
  "het_rows t i [] = Inr []"
| "het_rows t i (s # ss) =
     rbind (py_index (per_indv_sites t) i) (\<lambda>its.
     rbind (py_index (per_indv_vars t) i) (\<lambda>ivs.
     rbind (py_index (per_indv_hets t) i) (\<lambda>ih.
     rbind (py_truediv ih its) (\<lambda>pt.
     rbind (py_truediv ih ivs) (\<lambda>pv.
     rbind (het_rows t (Suc i) ss) (\<lambda>rs.
       Inr (\<lparr>row_sample = s, row_total = total_sites t, row_variant = variant_sites t,
              row_sites = its, row_vars = ivs, row_hets = ih, prop_total = pt, prop_vars = pv\<rparr>
            # rs)))))))"

text \<open>What the report computes after the table.\<close>

record het_summary =
  variant_frac :: pyfloat
  mean_hets :: pynum
  median_hets :: pynum
  sd_hets :: pyfloat

text \<open>Lines 170--178, in the order the code evaluates them.\<close>

definition summarise :: "vcf_tally \<Rightarrow> het_summary res" where
  "summarise t =
     rbind (py_truediv (variant_sites t) (total_sites t)) (\<lambda>frac.
     rbind (py_mean (per_indv_hets t)) (\<lambda>m.
     rbind (py_median (per_indv_hets t)) (\<lambda>med.
     rbind (py_stdev (per_indv_hets t)) (\<lambda>sd.
       Inr \<lparr>variant_frac = frac, mean_hets = m, median_hets = med, sd_hets = sd\<rparr>))))"

definition het_report :: "vcf_tally \<Rightarrow> (het_row list \<times> het_summary) res" where
  "het_report t =
     rbind (het_rows t 0 (samples t)) (\<lambda>rows. rbind (summarise t) (\<lambda>s. Inr (rows, s)))"

text \<open>\<open>process_vcf\<close>: the loop of \<^const>\<open>parse_vcf\<close>, then the report.\<close>

definition process_vcf :: "string list \<Rightarrow> (het_row list \<times> het_summary) res" where
  "process_vcf lines = rbind (parse_vcf lines) het_report"


text \<open>Two small files for the error paths: the second sample of \<open>ex_vcf_novar\<close> has no
  genotype at the only variant site; \<open>ex_vcf_single\<close> has a single sample.\<close>

definition ex_vcf_novar :: "string list" where
  "ex_vcf_novar =
    [py_join tab [''#CHROM'', ''POS'', ''ID'', ''REF'', ''ALT'', ''QUAL'', ''FILTER'', ''INFO'', ''FORMAT'',
                  ''SAMPLE1'', ''SAMPLE2''] @ [newline],
     py_join tab [''1'', ''10'', ''.'', ''A'', ''G'', ''.'', ''.'', ''.'', ''GT'', ''0/1'', ''./.''] @ [newline],
     py_join tab [''1'', ''11'', ''.'', ''A'', ''.'', ''.'', ''.'', ''.'', ''GT'', ''0/0'', ''0/0''] @ [newline]]"

definition ex_vcf_single :: "string list" where
  "ex_vcf_single =
    [py_join tab [''#CHROM'', ''POS'', ''ID'', ''REF'', ''ALT'', ''QUAL'', ''FILTER'', ''INFO'', ''FORMAT'',
                  ''SAMPLE1''] @ [newline],
     py_join tab [''1'', ''10'', ''.'', ''A'', ''G'', ''.'', ''.'', ''.'', ''GT'', ''0/1''] @ [newline]]"

text \<open>Two samples with one and two heterozygous sites: the mean and median are the
  float 1.5 and the standard deviation is \<open>0.7071067811865476\<close>.\<close>

definition ex_vcf_two :: "string list" where
  "ex_vcf_two =
    [py_join tab [''#CHROM'', ''POS'', ''ID'', ''REF'', ''ALT'', ''QUAL'', ''FILTER'', ''INFO'', ''FORMAT'',
                  ''SAMPLE1'', ''SAMPLE2''] @ [newline],
     py_join tab [''1'', ''10'', ''.'', ''A'', ''G'', ''.'', ''.'', ''.'', ''GT'', ''0/1'', ''0/1''] @ [newline],
     py_join tab [''1'', ''11'', ''.'', ''A'', ''C'', ''.'', ''.'', ''.'', ''GT'', ''0/0'', ''0/1''] @ [newline]]"

subsection \<open>Lemmas: divisions, statistics, rows\<close>

lemma het_rows_ok:
  assumes "tally_inv t"
  shows "i + length ss = length (samples t) \<Longrightarrow> (\<forall>j < length ss. 0 < per_indv_vars t ! (i + j)) \<Longrightarrow>
    \<exists>rs. het_rows t i ss = Inr rs"
proof (induction ss arbitrary: i)
  case Nil
  then show ?case by simp
next
  case (Cons s ss)
  have i: "i < length (samples t)" using Cons.prems(1) by simp
  with assms have b: "per_indv_hets t ! i \<le> per_indv_vars t ! i" "per_indv_vars t ! i \<le> per_indv_sites t ! i"
    and l: "i < length (per_indv_sites t)" "i < length (per_indv_vars t)" "i < length (per_indv_hets t)"
    by (auto simp: tally_inv_def)
  have v: "0 < per_indv_vars t ! i" using Cons.prems(2) by (metis add_0_right length_Cons zero_less_Suc)
  obtain p1 where p1: "py_truediv (per_indv_hets t ! i) (per_indv_sites t ! i) = Inr (Fin p1)"
    using py_truediv_le [of "per_indv_hets t ! i" "per_indv_sites t ! i"] b v by auto
  obtain p2 where p2: "py_truediv (per_indv_hets t ! i) (per_indv_vars t ! i) = Inr (Fin p2)"
    using py_truediv_le [of "per_indv_hets t ! i" "per_indv_vars t ! i"] b v by auto
  obtain rs where "het_rows t (Suc i) ss = Inr rs"
    using Cons.IH [of "Suc i"] Cons.prems by fastforce
  then show ?case using l p1 p2 by simp
qed

lemma het_rows_here:
  assumes "tally_inv t" "i < length (samples t)" "per_indv_vars t ! i = 0"
  shows "het_rows t i (s # ss) = Inl ZeroDivisionError"
proof -
  have b: "per_indv_hets t ! i \<le> per_indv_sites t ! i"
    and l: "i < length (per_indv_sites t)" "i < length (per_indv_vars t)" "i < length (per_indv_hets t)"
    using assms(1,2) by (auto simp: tally_inv_def intro: order_trans)
  show ?thesis
  proof (cases "per_indv_sites t ! i = 0")
    case True
    then show ?thesis using l by simp
  next
    case False
    then obtain p1 where "py_truediv (per_indv_hets t ! i) (per_indv_sites t ! i) = Inr (Fin p1)"
      using py_truediv_le [OF b] by auto
    then show ?thesis using l assms(3) by simp
  qed
qed

lemma het_rows_zero:
  assumes "tally_inv t"
  shows "i + length ss = length (samples t) \<Longrightarrow> j < length ss \<Longrightarrow> per_indv_vars t ! (i + j) = 0 \<Longrightarrow>
    het_rows t i ss = Inl ZeroDivisionError"
proof (induction ss arbitrary: i j)
  case Nil
  then show ?case by simp
next
  case (Cons s ss)
  have i: "i < length (samples t)" using Cons.prems(1) by simp
  show ?case
  proof (cases "per_indv_vars t ! i = 0")
    case True
    then show ?thesis by (rule het_rows_here [OF assms i])
  next
    case False
    then obtain j' where j: "j = Suc j'" using Cons.prems(3) by (cases j) auto
    from assms i have b: "per_indv_hets t ! i \<le> per_indv_vars t ! i" "per_indv_vars t ! i \<le> per_indv_sites t ! i"
      and l: "i < length (per_indv_sites t)" "i < length (per_indv_vars t)" "i < length (per_indv_hets t)"
      by (auto simp: tally_inv_def)
    obtain p1 where p1: "py_truediv (per_indv_hets t ! i) (per_indv_sites t ! i) = Inr (Fin p1)"
      using py_truediv_le [of "per_indv_hets t ! i" "per_indv_sites t ! i"] b False by auto
    obtain p2 where p2: "py_truediv (per_indv_hets t ! i) (per_indv_vars t ! i) = Inr (Fin p2)"
      using py_truediv_le [of "per_indv_hets t ! i" "per_indv_vars t ! i"] b False by auto
    have "het_rows t (Suc i) ss = Inl ZeroDivisionError"
      using Cons.IH [of "Suc i" j'] Cons.prems j by simp
    then show ?thesis using l p1 p2 by simp
  qed
qed

lemma hets_bounded:
  assumes "tally_inv t"
  shows "\<forall>x \<in> set (per_indv_hets t). x \<le> total_sites t"
proof
  fix x assume "x \<in> set (per_indv_hets t)"
  then obtain i where "i < length (samples t)" "x = per_indv_hets t ! i"
    using assms by (auto simp: tally_inv_def in_set_conv_nth)
  then show "x \<le> total_sites t" using assms by (auto simp: tally_inv_def intro: order_trans)
qed

lemma total_pos:
  assumes "tally_inv t" "i < length (samples t)" "0 < per_indv_vars t ! i"
  shows "0 < total_sites t"
  using assms by (auto simp: tally_inv_def)

lemma count_bound:
  assumes "2 \<le> n" "n * c \<le> 2 ^ 49"
  shows "c \<le> (2 ^ 1023 :: nat)"
proof -
  have "c \<le> n * c" using assms(1) by simp
  then have "c \<le> 2 ^ 49" using assms(2) by linarith
  also have "(2::nat) ^ 49 \<le> 2 ^ 1023" by (rule power_increasing) simp_all
  finally show ?thesis .
qed

lemma summarise_ok:
  assumes "tally_inv t" "length (samples t) * total_sites t \<le> 2 ^ 49" "2 \<le> length (samples t)"
    "\<forall>i < length (samples t). 0 < per_indv_vars t ! i"
  shows "\<exists>s. summarise t = Inr s"
proof -
  have tp: "0 < total_sites t" using total_pos [OF assms(1), of 0] assms(3,4) by fastforce
  have "variant_sites t \<le> total_sites t" using assms(1) by (simp add: tally_inv_def)
  then obtain f where f: "py_truediv (variant_sites t) (total_sites t) = Inr (Fin f)"
    using py_truediv_le tp by blast
  have len: "length (per_indv_hets t) = length (samples t)" using assms(1) by (simp add: tally_inv_def)
  have ne: "per_indv_hets t \<noteq> []" and l2: "2 \<le> length (per_indv_hets t)"
    using assms(3) len by auto
  have c: "total_sites t \<le> 2 ^ 1023" by (rule count_bound [OF assms(3,2)])
  obtain m where m: "py_mean (per_indv_hets t) = Inr m"
    using py_mean_ok [OF ne hets_bounded [OF assms(1)] c] by blast
  obtain md where md: "py_median (per_indv_hets t) = Inr md"
    using py_median_ok [OF ne hets_bounded [OF assms(1)] c] by blast
  obtain sd where sd: "py_stdev (per_indv_hets t) = Inr (Fin sd)"
    using py_stdev_ok [OF l2 hets_bounded [OF assms(1)]] assms(2) len by auto
  show ?thesis using f m md sd by (simp add: summarise_def)
qed

lemma summarise_few:
  assumes "length (per_indv_hets t) < 2"
  shows "\<exists>e. summarise t = Inl e"
  using assms by (cases "py_truediv (variant_sites t) (total_sites t)"; cases "py_mean (per_indv_hets t)";
      cases "py_median (per_indv_hets t)") (simp_all add: summarise_def py_stdev_few)

lemma summarise_stats:
  assumes "summarise t = Inr s"
  shows "py_mean (per_indv_hets t) = Inr (mean_hets s) \<and> py_median (per_indv_hets t) = Inr (median_hets s)"
  using assms by (auto simp: summarise_def res_simps)

lemma summarise_stdev: "summarise t = Inr s \<Longrightarrow> py_stdev (per_indv_hets t) = Inr (sd_hets s)"
  by (auto simp: summarise_def res_simps)

lemma het_report_iff:
  assumes "tally_inv t" "length (samples t) * total_sites t \<le> 2 ^ 49"
  shows "(\<exists>r. het_report t = Inr r) \<longleftrightarrow>
    2 \<le> length (samples t) \<and> (\<forall>i < length (samples t). 0 < per_indv_vars t ! i)"
proof
  assume ok: "\<exists>r. het_report t = Inr r"
  have v: "\<forall>i < length (samples t). 0 < per_indv_vars t ! i"
  proof (rule ccontr)
    assume "\<not> ?thesis"
    then obtain i where "i < length (samples t)" "per_indv_vars t ! i = 0" by auto
    then have "het_rows t 0 (samples t) = Inl ZeroDivisionError"
      using het_rows_zero [OF assms(1), of 0 "samples t" i] by simp
    then show False using ok by (simp add: het_report_def)
  qed
  moreover have "2 \<le> length (samples t)"
  proof (rule ccontr)
    assume "\<not> ?thesis"
    then obtain e where "summarise t = Inl e"
      using summarise_few [of t] assms(1) by (auto simp: tally_inv_def)
    moreover obtain rs where "het_rows t 0 (samples t) = Inr rs"
      using het_rows_ok [OF assms(1), of 0 "samples t"] v by auto
    ultimately show False using ok by (simp add: het_report_def)
  qed
  ultimately show "2 \<le> length (samples t) \<and> (\<forall>i < length (samples t). 0 < per_indv_vars t ! i)" by simp
next
  assume c: "2 \<le> length (samples t) \<and> (\<forall>i < length (samples t). 0 < per_indv_vars t ! i)"
  obtain rs where "het_rows t 0 (samples t) = Inr rs"
    using het_rows_ok [OF assms(1), of 0 "samples t"] c by auto
  moreover obtain s where "summarise t = Inr s" using summarise_ok [OF assms] c by blast
  ultimately show "\<exists>r. het_report t = Inr r" by (simp add: het_report_def)
qed

lemma het_rows_unit:
  assumes "tally_inv t"
  shows "i + length ss = length (samples t) \<Longrightarrow> het_rows t i ss = Inr rows \<Longrightarrow>
    \<forall>r \<in> set rows. flt_le (Fin 0) (prop_total r) \<and> flt_le (prop_total r) (Fin 1) \<and>
      flt_le (Fin 0) (prop_vars r) \<and> flt_le (prop_vars r) (Fin 1)"
proof (induction ss arbitrary: i rows)
  case Nil
  then show ?case by simp
next
  case (Cons s ss)
  have i: "i < length (samples t)" using Cons.prems(1) by simp
  with assms have b: "per_indv_hets t ! i \<le> per_indv_vars t ! i" "per_indv_hets t ! i \<le> per_indv_sites t ! i"
    and l: "i < length (per_indv_sites t)" "i < length (per_indv_vars t)" "i < length (per_indv_hets t)"
    by (auto simp: tally_inv_def intro: order_trans)
  from Cons.prems(2) l obtain pt pv rs where
    pt: "py_truediv (per_indv_hets t ! i) (per_indv_sites t ! i) = Inr pt" and
    pv: "py_truediv (per_indv_hets t ! i) (per_indv_vars t ! i) = Inr pv" and
    rs: "het_rows t (Suc i) ss = Inr rs" and
    rows: "rows = \<lparr>row_sample = s, row_total = total_sites t, row_variant = variant_sites t,
              row_sites = per_indv_sites t ! i, row_vars = per_indv_vars t ! i, row_hets = per_indv_hets t ! i,
              prop_total = pt, prop_vars = pv\<rparr> # rs"
    by (auto simp: res_simps)
  show ?case using py_truediv_unit [OF b(2) pt] py_truediv_unit [OF b(1) pv]
      Cons.IH [of "Suc i" rs] Cons.prems(1) rs rows by auto
qed

lemma parse_vcf_tally_inv: "parse_vcf ls = Inr t \<Longrightarrow> tally_inv t"
  unfolding parse_vcf_def by (erule vcf_lines_inv [OF init_tally_inv])

lemma ex_vcf_parsed: "parse_vcf ex_vcf = Inr \<lparr>total_sites = 4, variant_sites = 2, per_indv_sites = [3, 4, 3],
      per_indv_vars = [2, 2, 1], per_indv_hets = [1, 1, 1], samples = [''SAMPLE1'', ''SAMPLE2'', ''SAMPLE3'']\<rparr>"
  by code_simp

lemma ex_vcf_novar_parsed: "parse_vcf ex_vcf_novar = Inr \<lparr>total_sites = 2, variant_sites = 1,
    per_indv_sites = [2, 1], per_indv_vars = [1, 0], per_indv_hets = [1, 0], samples = [''SAMPLE1'', ''SAMPLE2'']\<rparr>"
  by code_simp

lemma ex_vcf_single_parsed: "parse_vcf ex_vcf_single = Inr \<lparr>total_sites = 1, variant_sites = 1,
    per_indv_sites = [1], per_indv_vars = [1], per_indv_hets = [1], samples = [''SAMPLE1'']\<rparr>"
  by code_simp

lemma ex_vcf_processed: "process_vcf ex_vcf = Inr ([\<lparr>row_sample = ''SAMPLE1'', row_total = 4, row_variant = 2, row_sites = 3, row_vars = 2, row_hets = 1,
          prop_total = Fin (6004799503160661 / 18014398509481984), prop_vars = Fin (1/2)\<rparr>,
        \<lparr>row_sample = ''SAMPLE2'', row_total = 4, row_variant = 2, row_sites = 4, row_vars = 2, row_hets = 1,
          prop_total = Fin (1/4), prop_vars = Fin (1/2)\<rparr>,
        \<lparr>row_sample = ''SAMPLE3'', row_total = 4, row_variant = 2, row_sites = 3, row_vars = 1, row_hets = 1,
          prop_total = Fin (6004799503160661 / 18014398509481984), prop_vars = Fin 1\<rparr>],
       \<lparr>variant_frac = Fin (1/2), mean_hets = IntVal 1, median_hets = IntVal 1, sd_hets = Fin 0\<rparr>)"
  using ex_vcf_parsed by (simp add: process_vcf_def het_report_def summarise_def stats_eval float_eval)

lemma ex_vcf_two_parsed: "parse_vcf ex_vcf_two = Inr \<lparr>total_sites = 2, variant_sites = 2,
    per_indv_sites = [2, 2], per_indv_vars = [2, 2], per_indv_hets = [1, 2], samples = [''SAMPLE1'', ''SAMPLE2'']\<rparr>"
  by code_simp

lemma ex_vcf_two_stdev: "py_stdev [1, 2] = Inr (Fin (6369051672525773 / 9007199254740992))"
  by (simp add: stats_eval float_eval)

lemma ex_vcf_two_summary: "summarise \<lparr>total_sites = 2, variant_sites = 2,
    per_indv_sites = [2, 2], per_indv_vars = [2, 2], per_indv_hets = [1, 2], samples = [''SAMPLE1'', ''SAMPLE2'']\<rparr> =
    Inr \<lparr>variant_frac = Fin 1, mean_hets = FloatVal (Fin (3/2)), median_hets = FloatVal (Fin (3/2)),
     sd_hets = Fin (6369051672525773 / 9007199254740992)\<rparr>"
proof -
  have m: "py_mean [1, 2] = Inr (FloatVal (Fin (3/2)))" by (simp add: py_mean_def py_convert_def float_eval)
  have s12: "sort [1, 2::nat] = [1, 2]" by simp
  have t32: "py_truediv 3 2 = Inr (Fin (3/2))" by (simp add: py_truediv_def float_eval)
  have md: "py_median [1, 2] = Inr (FloatVal (Fin (3/2)))"
    unfolding py_median_def Let_def s12 by (simp add: t32 [unfolded numeral_3_eq_3])
  have f: "py_truediv 2 2 = Inr (Fin 1)" by (simp add: py_truediv_def float_eval)
  show ?thesis using m md f ex_vcf_two_stdev by (simp add: summarise_def)
qed

lemma ex_vcf_two_processed: "process_vcf ex_vcf_two = Inr ([\<lparr>row_sample = ''SAMPLE1'', row_total = 2, row_variant = 2,
      row_sites = 2, row_vars = 2, row_hets = 1, prop_total = Fin (1/2), prop_vars = Fin (1/2)\<rparr>,
    \<lparr>row_sample = ''SAMPLE2'', row_total = 2, row_variant = 2,
      row_sites = 2, row_vars = 2, row_hets = 2, prop_total = Fin 1, prop_vars = Fin 1\<rparr>],
    \<lparr>variant_frac = Fin 1, mean_hets = FloatVal (Fin (3/2)), median_hets = FloatVal (Fin (3/2)),
     sd_hets = Fin (6369051672525773 / 9007199254740992)\<rparr>)"
proof -
  have h: "py_truediv 1 2 = Inr (Fin (1/2))" "py_truediv 2 2 = Inr (Fin 1)" by (simp_all add: py_truediv_def float_eval)
  show ?thesis using ex_vcf_two_parsed ex_vcf_two_summary h by (simp add: process_vcf_def het_report_def)
qed

subsection \<open>Properties of the report\<close>

text \<open>
  C7 (bounds). Whenever \<open>process_vcf\<close> gets through its table and summary, every
  proportion it writes (\<open>prop_hets_total_indv_sites\<close>, \<open>prop_hets_indv_var_sites\<close>) and
  the fraction of variant sites it prints are finite doubles in \<open>[0, 1]\<close>: the counts
  obey the tally invariant and a correctly rounded quotient of at most one is at most one.
\<close>
theorem process_vcf_unit_props:
  assumes "process_vcf lines = Inr (rows, s)"
  shows "(\<forall>r \<in> set rows. flt_le (Fin 0) (prop_total r) \<and> flt_le (prop_total r) (Fin 1) \<and>
           flt_le (Fin 0) (prop_vars r) \<and> flt_le (prop_vars r) (Fin 1)) \<and>
         flt_le (Fin 0) (variant_frac s) \<and> flt_le (variant_frac s) (Fin 1)"
proof -
  obtain t where t: "parse_vcf lines = Inr t" and r: "het_report t = Inr (rows, s)"
    using assms by (auto simp: process_vcf_def res_simps)
  have inv: "tally_inv t" by (rule parse_vcf_tally_inv [OF t])
  obtain f where rows: "het_rows t 0 (samples t) = Inr rows" and su: "summarise t = Inr s"
      and f: "py_truediv (variant_sites t) (total_sites t) = Inr f" and vf: "variant_frac s = f"
    using r by (auto simp: het_report_def summarise_def res_simps)
  have "variant_sites t \<le> total_sites t" using inv by (simp add: tally_inv_def)
  then show ?thesis using het_rows_unit [OF inv, of 0 "samples t" rows] rows py_truediv_unit f vf by simp
qed

theorem process_vcf_unit_props_witness:
  "process_vcf ex_vcf = Inr ([\<lparr>row_sample = ''SAMPLE1'', row_total = 4, row_variant = 2, row_sites = 3, row_vars = 2, row_hets = 1,
          prop_total = Fin (6004799503160661 / 18014398509481984), prop_vars = Fin (1/2)\<rparr>,
        \<lparr>row_sample = ''SAMPLE2'', row_total = 4, row_variant = 2, row_sites = 4, row_vars = 2, row_hets = 1,
          prop_total = Fin (1/4), prop_vars = Fin (1/2)\<rparr>,
        \<lparr>row_sample = ''SAMPLE3'', row_total = 4, row_variant = 2, row_sites = 3, row_vars = 1, row_hets = 1,
          prop_total = Fin (6004799503160661 / 18014398509481984), prop_vars = Fin 1\<rparr>],
       \<lparr>variant_frac = Fin (1/2), mean_hets = IntVal 1, median_hets = IntVal 1, sd_hets = Fin 0\<rparr>) \<and>
   flt_le (Fin 0) (Fin (6004799503160661 / 18014398509481984)) \<and> flt_le (Fin (6004799503160661 / 18014398509481984)) (Fin 1)"
  using process_vcf_unit_props [OF ex_vcf_processed] ex_vcf_processed by simp

text \<open>
  C6 (error). On any file whose loop ends with a tally where the number of samples times
  the number of sites is at most \<open>2^49\<close>, \<open>process_vcf\<close> finishes without exception
  exactly when there are at least two samples and every sample has a genotype at some
  variant site; otherwise its report raises (ZeroDivisionError or StatisticsError), where
  the specification asks for \<open>NaN\<close> or "undefined" instead. In particular the internal
  assertion of \<open>statistics._ss\<close> (no negative sum of squares after rounding) never
  fires on such counts, and no step overflows.
\<close>
theorem process_vcf_ok:
  assumes "parse_vcf lines = Inr t" "length (samples t) * total_sites t \<le> 2 ^ 49"
  shows "(\<exists>r. process_vcf lines = Inr r) \<longleftrightarrow>
    2 \<le> length (samples t) \<and> (\<forall>i < length (samples t). 0 < per_indv_vars t ! i)"
  using het_report_iff [OF parse_vcf_tally_inv [OF assms(1)] assms(2)] assms(1)
  by (simp add: process_vcf_def)

theorem process_vcf_ok_witness:
  "(\<exists>r. process_vcf ex_vcf = Inr r) \<and> \<not> (\<exists>r. process_vcf ex_vcf_single = Inr r)"
proof -
  have v: "\<forall>i < Suc (Suc (Suc 0)). 0 < [2, 2, Suc 0] ! i" by (auto simp: less_Suc_eq)
  show ?thesis using process_vcf_ok [OF ex_vcf_parsed] process_vcf_ok [OF ex_vcf_single_parsed] v by simp
qed

text \<open>
  C14 (error). A sample without any genotype at a variant site makes the table loop
  divide by zero: \<open>process_vcf\<close> raises ZeroDivisionError.
\<close>
theorem process_vcf_zero_division:
  assumes "parse_vcf lines = Inr t" "i < length (samples t)" "per_indv_vars t ! i = 0"
  shows "process_vcf lines = Inl ZeroDivisionError"
  using het_rows_zero [OF parse_vcf_tally_inv [OF assms(1)], of 0 "samples t" i] assms
  by (simp add: process_vcf_def het_report_def)

theorem process_vcf_zero_division_witness:
  "process_vcf ex_vcf_novar = Inl ZeroDivisionError"
  using process_vcf_zero_division [OF ex_vcf_novar_parsed, of 1] by simp

text \<open>
  C15 (error). With a single sample the table and the mean and median are computed, and
  then \<open>statistics.stdev\<close> raises StatisticsError.
\<close>
theorem process_vcf_single_sample:
  assumes "parse_vcf lines = Inr t" "samples t = [smp]" "0 < per_indv_vars t ! 0" "total_sites t \<le> 2 ^ 1023"
  shows "process_vcf lines = Inl StatisticsError"
proof -
  have inv: "tally_inv t" by (rule parse_vcf_tally_inv [OF assms(1)])
  obtain rs where rs: "het_rows t 0 (samples t) = Inr rs"
    using het_rows_ok [OF inv, of 0 "samples t"] assms(2,3) by auto
  have tp: "0 < total_sites t" using total_pos [OF inv, of 0] assms(2,3) by simp
  have "variant_sites t \<le> total_sites t" using inv by (simp add: tally_inv_def)
  then obtain f where f: "py_truediv (variant_sites t) (total_sites t) = Inr (Fin f)"
    using py_truediv_le tp by blast
  have l1: "length (per_indv_hets t) = 1" using inv assms(2) by (simp add: tally_inv_def)
  then have ne: "per_indv_hets t \<noteq> []" by auto
  obtain m where m: "py_mean (per_indv_hets t) = Inr m"
    using py_mean_ok [OF ne hets_bounded [OF inv] assms(4)] by blast
  obtain md where md: "py_median (per_indv_hets t) = Inr md"
    using py_median_ok [OF ne hets_bounded [OF inv] assms(4)] by blast
  show ?thesis using assms(1) rs f m md l1
    by (simp add: process_vcf_def het_report_def summarise_def py_stdev_few)
qed

theorem process_vcf_single_sample_witness:
  "process_vcf ex_vcf_single = Inl StatisticsError"
  using process_vcf_single_sample [OF ex_vcf_single_parsed] by simp

text \<open>
  C23 (functional). On counts where the number of samples times the number of sites is
  at most \<open>2^49\<close>, the standard deviation the report prints is \<open>0.0\<close> exactly when all
  samples have the same number of heterozygous sites: rounding never makes a spread of
  counts look like none, nor a constant count look spread.
\<close>
theorem process_vcf_stdev_zero:
  assumes "parse_vcf lines = Inr t" "process_vcf lines = Inr (rows, s)"
    "length (samples t) * total_sites t \<le> 2 ^ 49"
  shows "sd_hets s = Fin 0 \<longleftrightarrow> (\<forall>h \<in> set (per_indv_hets t). h = hd (per_indv_hets t))"
proof -
  have inv: "tally_inv t" by (rule parse_vcf_tally_inv [OF assms(1)])
  have len: "length (per_indv_hets t) = length (samples t)" using inv by (simp add: tally_inv_def)
  obtain rs where "het_rows t 0 (samples t) = Inr rs" and su: "summarise t = Inr s"
    using assms(1,2) by (auto simp: process_vcf_def het_report_def res_simps)
  have sd: "py_stdev (per_indv_hets t) = Inr (sd_hets s)" by (rule summarise_stdev [OF su])
  have l2: "2 \<le> length (per_indv_hets t)"
  proof (rule ccontr)
    assume "\<not> 2 \<le> length (per_indv_hets t)"
    then show False using sd py_stdev_few [of "per_indv_hets t"] by simp
  qed
  obtain v where "py_stdev (per_indv_hets t) = Inr (Fin v)" "v = 0 \<longleftrightarrow> (\<forall>h \<in> set (per_indv_hets t). h = hd (per_indv_hets t))"
    using py_stdev_ok [OF l2 hets_bounded [OF inv]] assms(3) len by auto
  then show ?thesis using sd by simp
qed

theorem process_vcf_stdev_zero_witness:
  "\<exists>rows s rows' s'. process_vcf ex_vcf = Inr (rows, s) \<and> process_vcf ex_vcf_two = Inr (rows', s') \<and>
     sd_hets s = Fin 0 \<and> sd_hets s' \<noteq> Fin 0"
proof -
  obtain rows s where p1: "process_vcf ex_vcf = Inr (rows, s)" using ex_vcf_processed by blast
  obtain rows' s' where p2: "process_vcf ex_vcf_two = Inr (rows', s')" using ex_vcf_two_processed by blast
  have "sd_hets s = Fin 0"
    using process_vcf_stdev_zero [OF ex_vcf_parsed p1] by simp
  moreover have "sd_hets s' \<noteq> Fin 0"
    using process_vcf_stdev_zero [OF ex_vcf_two_parsed p2] by simp
  ultimately show ?thesis using p1 p2 by blast
qed

end
