(* ===== verification/Cli.thy ===== *)
theory Cli
  imports HetReport Sampler
begin

text \<open>
  The command-line layer of both scripts: the checks that follow \<open>argparse\<close> in
  \<open>parse_args\<close> (\<^verbatim>\<open>src/filter_sumstats_to_whitelist.py\<close>, lines 17--26) and
  \<open>parse_command_line\<close> (\<^verbatim>\<open>src/calculate_idnv_obs_het.py\<close>, lines 19--23), and the two
  \<open>main\<close> functions that compose the components. \<open>argparse\<close> itself is not modelled: the
  checks start from the parsed arguments. The file system enters as the predicate
  \<open>ex\<close> (\<open>os.path.exists\<close>), and the contents of the input file as its list of lines.
\<close>

text \<open>How the checks end the program: \<open>sys.exit\<close> with a message, given as its text
  except for the float in the MAF message, whose \<open>repr\<close> is not modelled; or the
  \<open>TypeError\<close> of \<open>os.path.exists(None)\<close>.\<close>

datatype cli_error = Exit string | ExitMaf pyfloat | ArgTypeError

abbreviation quote :: char where
  "quote \<equiv> CHR 0x27"

definition not_found_msg :: "string \<Rightarrow> string" where
  "not_found_msg p = ''Error: '' @ quote # p @ quote # '' not found.''"

definition not_exist_msg :: "string \<Rightarrow> string" where
  "not_exist_msg p = ''Error: '' @ quote # p @ quote # '' does not exist.''"

subsection \<open>The whitelist filter\<close>

text \<open>The parsed arguments of \<open>parse_args\<close> (lines 9--14).\<close>

record filter_args =
  sumstats :: string
  n_populations :: int
  number_sites :: int
  hwe_arg :: bool
  maf_arg :: pyfloat
  outd :: string

text \<open>Lines 17--26: strip the trailing slashes of \<open>outd\<close>, then check the two paths, the
  MAF cutoff and the number of sites, in this order.\<close>

definition check_filter_args :: "(string \<Rightarrow> bool) \<Rightarrow> filter_args \<Rightarrow> cli_error + filter_args" where
  "check_filter_args ex args =
     (let a = args\<lparr>outd := py_rstrip ''/'' (outd args)\<rparr> in
      if \<not> ex (sumstats a) then Inl (Exit (not_found_msg (sumstats a)))
      else if \<not> ex (outd a) then Inl (Exit (not_found_msg (outd a)))
      else if flt_lt (Fin (1/2)) (maf_arg a) then Inl (ExitMaf (maf_arg a))
      else if number_sites a \<le> 0 then
        Inl (Exit (''Error: '' @ quote # ''number-sites'' @ quote # '' ('' @ str_int (number_sites a) @
                   '') must be non-zero positive integer.''))
      else Inr a)"

text \<open>Lines 122--126: the loci and the stored SNPs, counted over the dictionary.\<close>

definition count_snps :: "sites_dict \<Rightarrow> nat" where
  "count_snps d = sum_list (map (\<lambda>(loc, inner). length inner) d)"

text \<open>What \<open>main\<close> prints and writes when it ends normally.\<close>

record filter_output =
  nlocs :: nat
  nsnps :: nat
  whitelist_out :: whitelist

datatype main_error = CliError cli_error | RunError py_error

text \<open>Lines 118--130: the checks, \<open>parse_sumstats\<close> on the lines of the sumstats file,
  the two counts, and \<open>sample_kept_sites\<close>; \<open>None\<close> when the sampler runs forever.\<close>

definition filter_main :: "(string \<Rightarrow> bool) \<Rightarrow> 'g randbelow \<Rightarrow> filter_args \<Rightarrow> string list \<Rightarrow> 'g \<Rightarrow>
    (main_error + filter_output) option" where
  "filter_main ex rb args lines g =
     (case check_filter_args ex args of
        Inl e \<Rightarrow> Some (Inl (CliError e))
      | Inr a \<Rightarrow>
          (case parse_sumstats lines (n_populations a) (maf_arg a) (hwe_arg a) of
             Inl e \<Rightarrow> Some (Inl (RunError e))
           | Inr d \<Rightarrow>
               (case sample_kept_sites rb d (number_sites a) g of
                  None \<Rightarrow> None
                | Some (Inl e) \<Rightarrow> Some (Inl (RunError e))
                | Some (Inr (w, _)) \<Rightarrow>
                    Some (Inr \<lparr>nlocs = length d, nsnps = count_snps d, whitelist_out = w\<rparr>))))"

subsection \<open>The heterozygosity calculator\<close>

text \<open>The parsed arguments of \<open>parse_command_line\<close> (lines 13--18): \<open>--vcf\<close> is not
  required and defaults to \<open>None\<close>.\<close>

record calc_args =
  vcf :: "string option"
  outdir :: string

text \<open>Lines 19--23.\<close>

definition check_calc_args :: "(string \<Rightarrow> bool) \<Rightarrow> calc_args \<Rightarrow> cli_error + calc_args" where
  "check_calc_args ex args =
     (case vcf args of
        None \<Rightarrow> Inl ArgTypeError
      | Some v \<Rightarrow>
          if \<not> ex v then Inl (Exit (not_exist_msg v))
          else if \<not> ex (outdir args) then Inl (Exit (not_exist_msg (outdir args)))
          else Inr args)"

text \<open>Lines 180--190: the checks, then \<open>process_vcf\<close> on the lines of the VCF.\<close>

definition calc_main :: "(string \<Rightarrow> bool) \<Rightarrow> calc_args \<Rightarrow> string list \<Rightarrow>
    main_error + (het_row list \<times> het_summary)" where
  "calc_main ex args lines =
     (case check_calc_args ex args of
        Inl e \<Rightarrow> Inl (CliError e)
      | Inr _ \<Rightarrow> map_sum RunError id (process_vcf lines))"


subsection \<open>Lemmas: counting the dictionary\<close>

lemma card_dict_keys: "distinct (dict_keys d) \<Longrightarrow> card (set (dict_keys d)) = length d"
  unfolding dict_keys_def by (metis distinct_card length_map)

lemma lookup_keys_wf:
  assumes "sites_wf d"
  shows "{(l, c). dict2_lookup d l c \<noteq> None} = (\<Union>(l, inner) \<in> set d. {l} \<times> set (dict_keys inner))"
proof -
  have dk: "distinct (map fst d)" using assms by (simp add: sites_wf_def dict_keys_def)
  show ?thesis
  proof (intro set_eqI iffI)
    fix x assume "x \<in> {(l, c). dict2_lookup d l c \<noteq> None}"
    then obtain l c inner where x: "x = (l, c)" "map_of d l = Some inner" "map_of inner c \<noteq> None"
      by (auto simp: dict2_lookup_def split: option.splits)
    have "(l, inner) \<in> set d" using x(2) by (rule map_of_SomeD)
    moreover have "c \<in> set (dict_keys inner)" using x(3) by (metis dict_keys_def map_of_eq_None_iff set_map)
    ultimately show "x \<in> (\<Union>(l, inner) \<in> set d. {l} \<times> set (dict_keys inner))" using x(1) by blast
  next
    fix x assume "x \<in> (\<Union>(l, inner) \<in> set d. {l} \<times> set (dict_keys inner))"
    then obtain l c inner where x: "x = (l, c)" "(l, inner) \<in> set d" "c \<in> set (dict_keys inner)" by auto
    then have "map_of d l = Some inner" using dk by simp
    moreover obtain v where "map_of inner c = Some v"
      using x(3) by (auto simp: dict_keys_def dest: weak_map_of_SomeI)
    ultimately show "x \<in> {(l, c). dict2_lookup d l c \<noteq> None}" using x by (simp add: dict2_lookup_def)
  qed
qed

lemma count_snps_card:
  assumes "sites_wf d"
  shows "count_snps d = card (\<Union>(l, inner) \<in> set d. {l} \<times> set (dict_keys inner))"
  using assms
proof (induction d)
  case Nil
  then show ?case by (simp add: count_snps_def)
next
  case (Cons p d)
  obtain l inner where p: "p = (l, inner)" by fastforce
  have wf: "sites_wf d" and l: "l \<notin> fst ` set d" and di: "distinct (dict_keys inner)"
    using Cons.prems p by (auto simp: sites_wf_def dict_keys_def)
  have disj: "({l} \<times> set (dict_keys inner)) \<inter> (\<Union>(l, inner) \<in> set d. {l} \<times> set (dict_keys inner)) = {}"
    using l by force
  have fin: "finite (\<Union>(l, inner) \<in> set d. {l} \<times> set (dict_keys inner))" by auto
  have "card ({l} \<times> set (dict_keys inner)) = length inner"
    using di card_dict_keys [OF di] by (simp add: card_cartesian_product)
  then show ?case using Cons.IH [OF wf] disj fin p
    by (simp add: count_snps_def card_Un_disjoint)
qed

lemma loci_wf:
  assumes "sites_wf d"
  shows "{l. \<exists>c. dict2_lookup d l c \<noteq> None} = set (dict_keys d)"
proof -
  have "\<And>l. (\<exists>c. dict2_lookup d l c \<noteq> None) \<longleftrightarrow> l \<in> set (dict_keys d)"
  proof
    fix l assume "\<exists>c. dict2_lookup d l c \<noteq> None"
    then obtain inner where "map_of d l = Some inner" by (auto simp: dict2_lookup_def split: option.splits)
    then have "(l, inner) \<in> set d" by (rule map_of_SomeD)
    then show "l \<in> set (dict_keys d)" by (force simp: dict_keys_def)
  next
    fix l assume "l \<in> set (dict_keys d)"
    then obtain inner where i: "dict_get d l = Inr inner" "inner \<noteq> []"
      using sites_wf_lookup [OF assms] by blast
    then obtain c v where "(c, v) \<in> set inner" by (cases inner) auto
    then obtain v' where "map_of inner c = Some v'" by (meson weak_map_of_SomeI)
    then show "\<exists>c. dict2_lookup d l c \<noteq> None"
      using i by (auto simp: dict2_lookup_def dict_get_def split: option.splits)
  qed
  then show ?thesis by blast
qed

subsection \<open>Properties of the command-line layer\<close>

lemma check_filter_args_sites: "check_filter_args ex args = Inr a \<Longrightarrow> 0 < number_sites a"
  by (auto simp: check_filter_args_def Let_def split: if_splits)

lemma filter_main_Inr:
  assumes "filter_main ex rb args lines g = Some (Inr out)"
  shows "\<exists>a d w g'. check_filter_args ex args = Inr a \<and>
     parse_sumstats lines (n_populations a) (maf_arg a) (hwe_arg a) = Inr d \<and>
     sample_kept_sites rb d (number_sites a) g = Some (Inr (w, g')) \<and>
     out = \<lparr>nlocs = length d, nsnps = count_snps d, whitelist_out = w\<rparr>"
proof -
  obtain a where a: "check_filter_args ex args = Inr a"
    using assms by (cases "check_filter_args ex args") (simp_all add: filter_main_def)
  obtain d where d: "parse_sumstats lines (n_populations a) (maf_arg a) (hwe_arg a) = Inr d"
    using assms a by (cases "parse_sumstats lines (n_populations a) (maf_arg a) (hwe_arg a)")
      (simp_all add: filter_main_def)
  obtain r where r: "sample_kept_sites rb d (number_sites a) g = Some r"
    using assms a d by (cases "sample_kept_sites rb d (number_sites a) g") (simp_all add: filter_main_def)
  obtain w g' where w: "r = Inr (w, g')"
    using assms a d r by (cases r) (auto simp: filter_main_def)
  then have "out = \<lparr>nlocs = length d, nsnps = count_snps d, whitelist_out = w\<rparr>"
    using assms a d r by (simp add: filter_main_def)
  then show ?thesis using a d r w by blast
qed

lemma ex_filter_run:
  "filter_main (\<lambda>p. True) counter_rb \<lparr>sumstats = ''pop.sumstats.tsv'', n_populations = 2, number_sites = 1,
       hwe_arg = False, maf_arg = Fin 0, outd = ''.''\<rparr> ex_sumstats 0 =
     Some (Inr \<lparr>nlocs = 2, nsnps = 2, whitelist_out = Written False [(2, 3)]\<rparr>)"
  using ex_sumstats_parsed
  by (simp add: filter_main_def check_filter_args_def py_rstrip_def flt_lt.simps sample_kept_sites_def
      py_sample_def sample_setsize_def dict_keys_def ex_dict_def counter_rb_def py_choice_def dict_get_def
      count_snps_def)

text \<open>
  C8 (functional). When the filter's \<open>main\<close> ends normally, the two numbers it prints are
  those of the dictionary built from the file: \<open>nlocs\<close> is the number of loci with a
  kept SNP and \<open>nsnps\<close> the number of kept \<open>(locus, column)\<close> pairs.
\<close>
theorem filter_main_counts:
  assumes "filter_main ex rb args lines g = Some (Inr out)"
  shows "\<exists>a d. check_filter_args ex args = Inr a \<and>
     parse_sumstats lines (n_populations a) (maf_arg a) (hwe_arg a) = Inr d \<and>
     nlocs out = card {l. \<exists>c. dict2_lookup d l c \<noteq> None} \<and>
     nsnps out = card {(l, c). dict2_lookup d l c \<noteq> None}"
proof -
  obtain a d w g' where a: "check_filter_args ex args = Inr a"
    and d: "parse_sumstats lines (n_populations a) (maf_arg a) (hwe_arg a) = Inr d"
    and o: "out = \<lparr>nlocs = length d, nsnps = count_snps d, whitelist_out = w\<rparr>"
    using filter_main_Inr [OF assms] by blast
  have wf: "sites_wf d" by (rule parse_sumstats_sites_wf [OF d])
  have "length d = card {l. \<exists>c. dict2_lookup d l c \<noteq> None}"
    using loci_wf [OF wf] card_dict_keys [of d] wf by (simp add: sites_wf_def)
  moreover have "count_snps d = card {(l, c). dict2_lookup d l c \<noteq> None}"
    using count_snps_card [OF wf] lookup_keys_wf [OF wf] by simp
  ultimately show ?thesis using a d o by (intro exI [of _ a] exI [of _ d]) simp
qed

theorem filter_main_counts_witness:
  "filter_main (\<lambda>p. True) counter_rb \<lparr>sumstats = ''pop.sumstats.tsv'', n_populations = 2, number_sites = 1,
       hwe_arg = False, maf_arg = Fin 0, outd = ''.''\<rparr> ex_sumstats 0 =
     Some (Inr \<lparr>nlocs = 2, nsnps = 2, whitelist_out = Written False [(2, 3)]\<rparr>) \<and>
   (\<exists>a d. check_filter_args (\<lambda>p. True) \<lparr>sumstats = ''pop.sumstats.tsv'', n_populations = 2, number_sites = 1,
       hwe_arg = False, maf_arg = Fin 0, outd = ''.''\<rparr> = Inr a \<and>
     parse_sumstats ex_sumstats (n_populations a) (maf_arg a) (hwe_arg a) = Inr d \<and>
     2 = card {l. \<exists>c. dict2_lookup d l c \<noteq> None} \<and> 2 = card {(l, c). dict2_lookup d l c \<noteq> None})"
  using filter_main_counts [OF ex_filter_run] ex_filter_run by simp

text \<open>
  C16 (error). Because \<open>outd\<close> is stripped of trailing slashes before it is checked, an
  output directory made only of slashes (the root \<open>/\<close>) becomes the empty path, which
  never exists: the filter exits with \<open>Error: '' not found.\<close>
\<close>
theorem outd_slashes_rejected:
  assumes "ex (sumstats args)" "\<not> ex ''''" "set (outd args) \<subseteq> {CHR ''/''}"
  shows "check_filter_args ex args = Inl (Exit (not_found_msg ''''))"
  using assms py_rstrip_all [of "outd args" "''/''"] by (simp add: check_filter_args_def Let_def)

theorem outd_slashes_rejected_witness:
  "check_filter_args (\<lambda>p. p \<noteq> '''') \<lparr>sumstats = ''pop.sumstats.tsv'', n_populations = 2, number_sites = 1000,
     hwe_arg = False, maf_arg = Fin 0, outd = ''/''\<rparr> = Inl (Exit (not_found_msg ''''))"
  by (rule outd_slashes_rejected) simp_all

text \<open>
  C17 (error). \<open>parse_args\<close> only refuses a MAF above 0.5: a negative or NaN cutoff is
  accepted and the run ends in the AssertionError of \<open>parse_sumstats\<close> instead of a
  configuration error.
\<close>
theorem filter_main_maf_assert:
  assumes "ex (sumstats args)" "ex (py_rstrip ''/'' (outd args))" "0 < number_sites args"
    "maf_arg args = NaN \<or> flt_lt (maf_arg args) (Fin 0)"
  shows "filter_main ex rb args lines g = Some (Inl (RunError AssertionError))"
proof -
  have nm: "\<not> flt_lt (Fin (1/2)) (maf_arg args)"
    and na: "\<not> (flt_le (Fin 0) (maf_arg args) \<and> flt_le (maf_arg args) (Fin (1/2)))"
    using assms(4) by (cases "maf_arg args"; auto simp: flt_le_def)+
  have c: "check_filter_args ex args = Inr (args\<lparr>outd := py_rstrip ''/'' (outd args)\<rparr>)"
    using assms(1-3) nm by (simp add: check_filter_args_def Let_def)
  have "parse_sumstats lines (n_populations args) (maf_arg args) (hwe_arg args) = Inl AssertionError"
    using na by (simp only: parse_sumstats_def py_assert_def if_False rbind_Inl)
  then show ?thesis using c by (simp add: filter_main_def)
qed

theorem filter_main_maf_assert_witness:
  "filter_main (\<lambda>p. True) counter_rb \<lparr>sumstats = ''pop.sumstats.tsv'', n_populations = 2, number_sites = 1000,
     hwe_arg = False, maf_arg = NaN, outd = ''.''\<rparr> ex_sumstats 0 = Some (Inl (RunError AssertionError))"
  by (rule filter_main_maf_assert) simp_all

text \<open>
  C9 (error). The calculator's argument errors, in the order the code meets them: without
  \<open>--vcf\<close> the run ends in TypeError (\<open>os.path.exists(None)\<close>), whatever the file
  system and the output directory, instead of a report that the argument is missing; with
  a \<open>--vcf\<close> path that does not exist it exits naming that path, whether or not the output
  directory exists.
\<close>
theorem calc_main_arg_errors:
  "calc_main ex \<lparr>vcf = None, outdir = od\<rparr> lines = Inl (CliError ArgTypeError) \<and>
   (\<not> ex v \<longrightarrow> calc_main ex \<lparr>vcf = Some v, outdir = od\<rparr> lines = Inl (CliError (Exit (not_exist_msg v))))"
  by (simp add: calc_main_def check_calc_args_def)

theorem calc_main_arg_errors_witness:
  "calc_main (\<lambda>p. False) \<lparr>vcf = None, outdir = ''.''\<rparr> ex_vcf = Inl (CliError ArgTypeError) \<and>
   calc_main (\<lambda>p. False) \<lparr>vcf = Some ''missing.vcf'', outdir = ''.''\<rparr> ex_vcf =
     Inl (CliError (Exit (not_exist_msg ''missing.vcf'')))"
  using calc_main_arg_errors [of "\<lambda>p. False" "''.''" ex_vcf "''missing.vcf''"] by simp

end
