(* ===== verification/PyFormat.thy ===== *)
theory PyFormat
  imports PyStats
begin

text \<open>
  Python's format specifications as the two scripts use them on numbers: \<open>{n:,}\<close> on an
  int (thousands separators), \<open>{x:.08f}\<close> and \<open>{x:,.03f}\<close> on a float (fixed point,
  optionally grouped), \<open>{x:,.03f}\<close> on an int (converted to float first) and
  \<open>{x:.03%}\<close> (the float times 100, then fixed point and a percent sign). CPython prints
  the exact binary value of the double rounded to the requested number of decimals,
  ties to even. The sign of a negative zero is not modelled (the model has one zero).
\<close>

text \<open>The integer nearest to \<open>q\<close>, ties to the even one.\<close>

definition round_half_even :: "rat \<Rightarrow> int" where
  "round_half_even q =
     (let (a, b) = quotient_of q; f = a div b; r = a mod b in
      if 2 * r < b then f else if b < 2 * r then f + 1 else if even f then f else f + 1)"

text \<open>Thousands separators: a comma before every group of three digits from the right,
  inserted on the reversed digits.\<close>

fun group3_rev :: "string \<Rightarrow> string" where
  "group3_rev (a # b # c # d # ds) = a # b # c # CHR '','' # group3_rev (d # ds)"
| "group3_rev ds = ds"

definition group_digits :: "string \<Rightarrow> string" where
  "group_digits s = rev (group3_rev (rev s))"

text \<open>\<open>n / 10^p\<close> in fixed point with \<open>p\<close> decimals, the integer part grouped or not.\<close>

definition fixed_str :: "bool \<Rightarrow> nat \<Rightarrow> nat \<Rightarrow> string" where
  "fixed_str grp p n =
     (let ip = str_nat (n div 10 ^ p); fp = str_nat (n mod 10 ^ p) in
      (if grp then group_digits ip else ip) @
      (if p = 0 then [] else CHR ''.'' # replicate (p - length fp) CHR ''0'' @ fp))"

text \<open>\<open>format(x, '.pf')\<close> and \<open>format(x, ',.pf')\<close> on a float.\<close>

fun fmt_float :: "bool \<Rightarrow> nat \<Rightarrow> pyfloat \<Rightarrow> string" where
  "fmt_float grp p (Fin q) =
     (if q < 0 then CHR ''-'' # fixed_str grp p (nat (round_half_even (- q * 10 ^ p)))
      else fixed_str grp p (nat (round_half_even (q * 10 ^ p))))"
| "fmt_float grp p PInf = ''inf''"
| "fmt_float grp p NInf = ''-inf''"
| "fmt_float grp p NaN = ''nan''"

text \<open>\<open>format(n, ',')\<close> on an int.\<close>

definition fmt_int_group :: "int \<Rightarrow> string" where
  "fmt_int_group i =
     (if i < 0 then CHR ''-'' # group_digits (str_nat (nat (- i))) else group_digits (str_nat (nat i)))"

text \<open>\<open>format(v, ',.pf')\<close> on what \<open>statistics\<close> returns: an int is converted to float
  first (\<open>OverflowError\<close> beyond the doubles).\<close>

fun fmt_num :: "bool \<Rightarrow> nat \<Rightarrow> pynum \<Rightarrow> string res" where
  "fmt_num grp p (IntVal i) = rbind (py_int_float i) (\<lambda>f. Inr (fmt_float grp p f))"
| "fmt_num grp p (FloatVal f) = Inr (fmt_float grp p f)"

text \<open>\<open>format(x, '.p%')\<close>: \<open>x * 100\<close> in floating point, then fixed point, then \<open>%\<close>.\<close>

fun flt_times100 :: "pyfloat \<Rightarrow> pyfloat" where
  "flt_times100 (Fin q) = round_rat (q * 100)"
| "flt_times100 f = f"

definition fmt_percent :: "nat \<Rightarrow> pyfloat \<Rightarrow> string" where
  "fmt_percent p f = fmt_float False p (flt_times100 f) @ ''%''"


subsection \<open>Lemmas: rounding to an integer, and the characters of a formatted number\<close>

lemma round_half_even_err: "\<bar>of_int (round_half_even q) - q\<bar> \<le> 1 / 2"
proof -
  obtain a b where ab: "quotient_of q = (a, b)" by fastforce
  have b: "0 < b" using quotient_of_denom_pos [OF ab] .
  have q: "q = of_int a / of_int b" using quotient_of_div [OF ab] .
  define f where "f = a div b"
  define r where "r = a mod b"
  have a: "a = f * b + r" by (simp add: f_def r_def)
  have r: "0 \<le> r" "r < b" using b by (simp_all add: r_def)
  have qf: "q = of_int f + of_int r / of_int b" using q a b by (simp add: field_simps)
  have bp: "(0::rat) < of_int b" using b by simp
  have rb: "0 \<le> of_int r / (of_int b :: rat)" "of_int r / (of_int b :: rat) \<le> 1"
    using r bp by (simp_all add: divide_le_eq)
  consider "2 * r < b" | "b < 2 * r" | "2 * r = b" by linarith
  then show ?thesis
  proof cases
    case 1
    then have "round_half_even q = f" using ab by (simp add: round_half_even_def f_def r_def)
    then have e: "of_int (round_half_even q) - q = - (of_int r / of_int b)" using qf by simp
    have "of_int (2 * r) \<le> (of_int b :: rat)" using 1 by linarith
    then have "of_int r / of_int b \<le> (1 / 2 :: rat)" using bp by (simp add: divide_le_eq)
    then show ?thesis using e rb by (simp add: abs_le_iff)
  next
    case 2
    then have "round_half_even q = f + 1" using ab by (simp add: round_half_even_def f_def r_def)
    then have e: "of_int (round_half_even q) - q = 1 - of_int r / of_int b" using qf by simp
    have "(of_int b :: rat) \<le> of_int (2 * r)" using 2 by linarith
    then have "(1 / 2 :: rat) \<le> of_int r / of_int b" using bp by (simp add: le_divide_eq)
    then show ?thesis using e rb by (simp add: abs_le_iff)
  next
    case 3
    then have "round_half_even q = f \<or> round_half_even q = f + 1"
      using ab by (simp add: round_half_even_def f_def r_def Let_def)
    moreover have "(of_int r :: rat) / of_int b = 1 / 2"
    proof -
      have "(of_int (2 * r) :: rat) = of_int b" using 3 by simp
      then show ?thesis using bp by (simp add: field_simps)
    qed
    ultimately show ?thesis using qf by auto
  qed
qed

lemma round_half_even_nonneg: "0 \<le> q \<Longrightarrow> 0 \<le> round_half_even q"
  using round_half_even_err [of q] by linarith

lemma group3_rev_chars: "set (group3_rev s) \<subseteq> set s \<union> {CHR '',''}"
  by (induction s rule: group3_rev.induct) auto

lemma group_digits_chars: "set (group_digits s) \<subseteq> set s \<union> {CHR '',''}"
  using group3_rev_chars [of "rev s"] by (simp add: group_digits_def)

lemma fixed_str_chars: "set (fixed_str grp p n) \<subseteq> {c. is_digit c} \<union> {CHR '','', CHR ''.''}"
proof -
  have d: "\<And>m. set (str_nat m) \<subseteq> {c. is_digit c}" using str_nat_digits by (auto simp: list_all_iff)
  have ip: "set (if grp then group_digits (str_nat (n div 10 ^ p)) else str_nat (n div 10 ^ p))
      \<subseteq> {c. is_digit c} \<union> {CHR '',''}"
    using d group_digits_chars [of "str_nat (n div 10 ^ p)"] by auto
  have z: "is_digit (CHR ''0'')" by (simp add: is_digit_def)
  have fp: "set (if p = 0 then [] else CHR ''.'' # replicate (p - length (str_nat (n mod 10 ^ p))) CHR ''0''
      @ str_nat (n mod 10 ^ p)) \<subseteq> {c. is_digit c} \<union> {CHR ''.''}"
    using d [of "n mod 10 ^ p"] z by auto
  show ?thesis using ip fp unfolding fixed_str_def Let_def set_append by blast
qed

lemma fmt_float_chars:
  "set (fmt_float grp p f) \<subseteq> {c. is_digit c} \<union> {CHR '','', CHR ''.'', CHR ''-''} \<union> set ''infa''"
  using fixed_str_chars [of grp p] by (cases f) auto

subsection \<open>Lemmas: a fixed-point string is the rounded value with \<open>p\<close> decimals\<close>

lemma digits_val_Nil [simp]: "digits_val [] = 0"
  by (simp add: digits_val_def)

lemma digits_val_append: "digits_val (xs @ ys) = digits_val xs * 10 ^ length ys + digits_val ys"
proof (induction ys rule: rev_induct)
  case (snoc y ys)
  then show ?case by (simp del: append_assoc add: append_assoc [symmetric] algebra_simps)
qed simp

lemma digits_val_zeros [simp]: "digits_val (replicate k (CHR ''0'')) = 0"
proof (induction k)
  case (Suc k)
  have "replicate (Suc k) (CHR ''0'') = replicate k (CHR ''0'') @ [CHR ''0'']"
    by (simp add: replicate_append_same)
  then show ?case using Suc by (simp add: digit_val_def)
qed simp

lemma list_all_digit_zeros [simp]: "list_all is_digit (replicate k (CHR ''0''))"
  by (induction k) (simp_all add: is_digit_def)

lemma length_str_nat_le: "m < 10 ^ k \<Longrightarrow> 0 < k \<Longrightarrow> length (str_nat m) \<le> k"
proof (induction m arbitrary: k rule: str_nat.induct)
  case (1 m)
  show ?case
  proof (cases "m < 10")
    case True
    then show ?thesis using "1.prems" by (subst str_nat.simps) simp
  next
    case False
    obtain k' where k: "k = Suc k'" using "1.prems"(2) by (cases k) auto
    have "k' \<noteq> 0"
    proof
      assume "k' = 0"
      then show False using "1.prems"(1) k False by simp
    qed
    then have "1 \<le> k'" by simp
    moreover have "m div 10 < 10 ^ k'" using "1.prems"(1) k by (simp add: div_less_iff_less_mult mult.commute)
    ultimately have "length (str_nat (m div 10)) \<le> k'" using "1.IH" False by simp
    then show ?thesis using False k by (subst str_nat.simps) simp
  qed
qed

lemma fixed_str_decimal:
  assumes "0 < p"
  shows "\<exists>ip fp. fixed_str grp p n = (if grp then group_digits ip else ip) @ CHR ''.'' # fp \<and>
           ip \<noteq> [] \<and> length fp = p \<and> list_all is_digit ip \<and> list_all is_digit fp \<and>
           digits_val (ip @ fp) = n"
proof -
  define s where "s = str_nat (n mod 10 ^ p)"
  define fp where "fp = replicate (p - length s) (CHR ''0'') @ s"
  have ls: "length s \<le> p" unfolding s_def using assms by (intro length_str_nat_le) simp_all
  have lf: "length fp = p" using ls by (simp add: fp_def)
  have vf: "digits_val fp = n mod 10 ^ p" by (simp add: fp_def s_def digits_val_append)
  have df: "list_all is_digit fp" using str_nat_digits by (simp add: fp_def s_def)
  have "digits_val (str_nat (n div 10 ^ p) @ fp) = n" by (simp add: digits_val_append lf vf div_mult_mod_eq)
  then show ?thesis using assms lf df str_nat_digits
    by (intro exI [of _ "str_nat (n div 10 ^ p)"] exI [of _ fp]) (simp add: fixed_str_def Let_def fp_def s_def)
qed

lemma fmt_float_decimal:
  assumes "0 \<le> v" "0 < p"
  shows "\<exists>ip fp. fmt_float grp p (Fin v) = (if grp then group_digits ip else ip) @ CHR ''.'' # fp \<and>
           ip \<noteq> [] \<and> length fp = p \<and> list_all is_digit ip \<and> list_all is_digit fp \<and>
           \<bar>of_nat (digits_val (ip @ fp)) / 10 ^ p - v\<bar> \<le> 1 / (2 * 10 ^ p)"
proof -
  define k where "k = round_half_even (v * 10 ^ p)"
  have k0: "0 \<le> k" unfolding k_def using assms(1) by (intro round_half_even_nonneg) simp
  have e: "\<bar>of_int k - v * 10 ^ p\<bar> \<le> 1 / 2" unfolding k_def by (rule round_half_even_err)
  have "of_int k / 10 ^ p - v = (of_int k - v * 10 ^ p) / (10 ^ p :: rat)"
    by (simp add: field_simps)
  then have "\<bar>of_int k / 10 ^ p - v\<bar> = \<bar>of_int k - v * 10 ^ p\<bar> / (10 ^ p :: rat)"
    by simp
  also have "\<dots> \<le> (1 / 2) / 10 ^ p" by (rule divide_right_mono [OF e]) simp
  finally have b: "\<bar>of_int k / 10 ^ p - v\<bar> \<le> 1 / (2 * 10 ^ p)" by simp
  obtain ip fp where f: "fixed_str grp p (nat k) = (if grp then group_digits ip else ip) @ CHR ''.'' # fp"
    and r: "ip \<noteq> [] \<and> length fp = p \<and> list_all is_digit ip \<and> list_all is_digit fp"
    and v: "digits_val (ip @ fp) = nat k"
    using fixed_str_decimal [OF assms(2), of grp "nat k"] by blast
  have "(of_nat (digits_val (ip @ fp)) :: rat) = of_int k" using v k0 by simp
  then show ?thesis using f r b assms(1) by (intro exI [of _ ip] exI [of _ fp]) (simp add: k_def)
qed

subsection \<open>Evaluation\<close>

lemma replicate_numeral: "replicate (numeral n) x = x # replicate (pred_numeral n) x"
  by (simp add: numeral_eq_Suc)

lemmas fmt_eval = round_half_even_def fixed_str_def group_digits_def fmt_int_group_def fmt_percent_def
  str_nat.simps digit_char_def char_of_def bit_simps replicate_numeral

end
