(* ===== verification/Output.thy ===== *)
theory Output
  imports Cli PyFormat
begin

text \<open>
  The text the two scripts write: the table \<open>per_individual_heterozygosity.tsv\<close> and the
  summary \<open>process_vcf\<close> prints (\<^verbatim>\<open>src/calculate_idnv_obs_het.py\<close>, lines 153--178),
  and the file \<open>snp_whitelist.tsv\<close>, the warning and the two counts of the whitelist filter
  (\<^verbatim>\<open>src/filter_sumstats_to_whitelist.py\<close>, lines 108--131). Every number goes through the
  formatting of \<^theory_text>\<open>PyFormat\<close>. Both \<open>main\<close> functions are given with what they print,
  the calculator's with its banners and the two time stamps of \<open>now()\<close> (lines 5, 25--31 and
  180--190). The lemmas read the files back (the table by lines, tabs and \<open>int()\<close>, the
  whitelist the same way, the time stamps by their separators), bound the printed
  decimals, and show that printing never raises where computing succeeded.
\<close>

subsection \<open>The heterozygosity table and summary\<close>

text \<open>Lines 154--158: the header row, joined by tabs.\<close>

definition het_header :: string where
  "het_header =
     py_join tab [''#indv_id'', ''num_total_sites'', ''num_total_var_sites'',
                  ''num_sites_in_indv'', ''num_var_sites_in_indv'', ''num_hets_in_indv'',
                  ''prop_hets_total_indv_sites'', ''prop_hets_indv_var_sites''] @ [newline]"

text \<open>Line 167: one row, the counts by \<open>str\<close> and the proportions by \<open>:.08f\<close>.\<close>

definition het_row_line :: "het_row \<Rightarrow> string" where
  "het_row_line r =
     row_sample r @ tab # str_nat (row_total r) @ tab # str_nat (row_variant r) @ tab #
     str_nat (row_sites r) @ tab # str_nat (row_vars r) @ tab # str_nat (row_hets r) @ tab #
     fmt_float False 8 (prop_total r) @ tab # fmt_float False 8 (prop_vars r) @ [newline]"

text \<open>Lines 153--168: the whole file.\<close>

definition het_file :: "het_row list \<Rightarrow> string" where
  "het_file rows = het_header @ concat (map het_row_line rows)"

text \<open>Lines 169--178: the three \<open>print\<close> calls, each ending in a newline. The mean and the
  median are formatted by \<open>:,.03f\<close>, which converts an int to float first.\<close>

definition summary_text :: "vcf_tally \<Rightarrow> het_summary \<Rightarrow> string res" where
  "summary_text t s =
     rbind (fmt_num True 3 (mean_hets s)) (\<lambda>m.
     rbind (fmt_num True 3 (median_hets s)) (\<lambda>md.
       Inr (''Read a total of '' @ fmt_int_group (int (total_sites t)) @ '' sites in the VCF.'' @ [newline] @
            ''    A total of '' @ fmt_int_group (int (variant_sites t)) @ '' ('' @
              fmt_percent 3 (variant_frac s) @ '') were variant sites.'' @ [newline, newline] @
            ''Average heterozygous sites per individual:'' @ [newline] @
            ''    Mean:   '' @ m @ [newline] @
            ''    Median: '' @ md @ [newline] @
            ''    StDev:  '' @ fmt_float True 3 (sd_hets s) @ [newline])))"

text \<open>Lines 100 and 120: \<open>process_vcf\<close> announces the parse, and each header line the
  number of its samples.\<close>

definition vcf_progress :: "string list \<Rightarrow> string" where
  "vcf_progress lines =
     ''Parsing VCF...'' @ [newline] @
     concat (map (\<lambda>l. if \<not> py_startswith ''##'' l \<and> py_startswith ''#CHROM'' l
                      then ''    Processing genotypes for '' @ str_nat (length (drop 9 (vcf_fields l))) @
                           '' samples.'' @ [newline, newline]
                      else []) lines)"

text \<open>\<open>process_vcf\<close> with its output: the table and everything it prints.\<close>

definition process_vcf_text :: "string list \<Rightarrow> (string \<times> string) res" where
  "process_vcf_text lines =
     rbind (parse_vcf lines) (\<lambda>t.
     rbind (het_report t) (\<lambda>(rows, s).
     rbind (summary_text t s) (\<lambda>txt. Inr (het_file rows, vcf_progress lines @ txt))))"

subsection \<open>The whitelist file and the filter's messages\<close>

text \<open>Lines 112--116: \<open>loc\tcol\<close> per sampled locus; no file for an empty dictionary.\<close>

definition whitelist_file :: "whitelist \<Rightarrow> string option" where
  "whitelist_file w =
     (case w of
        NoOutput \<Rightarrow> None
      | Written _ rows \<Rightarrow> Some (concat (map (\<lambda>(loc, col). str_int loc @ tab # str_int col @ [newline]) rows)))"

text \<open>Line 109.\<close>

definition warning_msg :: "int \<Rightarrow> nat \<Rightarrow> string" where
  "warning_msg n_sites nloc =
     ''Warning: more sites chosen ('' @ fmt_int_group n_sites @ '') than loci available ('' @
     fmt_int_group (int nloc) @ ''). Exporting '' @ fmt_int_group (int nloc) @ '' total sites.'' @ [newline]"

text \<open>Lines 127--128 and the warning of line 109, in the order they are printed.\<close>

definition filter_stdout :: "filter_args \<Rightarrow> filter_output \<Rightarrow> string" where
  "filter_stdout a out =
     ''Total loci kept: '' @ fmt_int_group (int (nlocs out)) @ ''.'' @ [newline] @
     ''Total SNPs kept: '' @ fmt_int_group (int (nsnps out)) @ ''.'' @ [newline] @
     (case whitelist_out out of Written True _ \<Rightarrow> warning_msg (number_sites a) (nlocs out) | _ \<Rightarrow> [])"

text \<open>The filter's \<open>main\<close> with its output: what it prints and the whitelist file
  (\<open>None\<close> when it writes none); \<open>None\<close> as a whole when the sampler runs forever.\<close>

definition filter_main_text :: "(string \<Rightarrow> bool) \<Rightarrow> 'g randbelow \<Rightarrow> filter_args \<Rightarrow> string list \<Rightarrow> 'g \<Rightarrow>
    (main_error + string \<times> string option) option" where
  "filter_main_text ex rb args lines g =
     map_option (map_sum id (\<lambda>out. (filter_stdout args out, whitelist_file (whitelist_out out))))
       (filter_main ex rb args lines g)"

subsection \<open>The calculator's \<open>main\<close>\<close>

text \<open>Line 5: \<open>PROG = sys.argv[0].split('/')[-1]\<close>.\<close>

definition prog_name :: "string \<Rightarrow> string" where
  "prog_name argv0 = last (py_split (CHR ''/'') argv0)"

text \<open>A value of \<open>datetime.datetime.now()\<close>, to the second.\<close>

record datetime =
  dt_year :: nat
  dt_month :: nat
  dt_day :: nat
  dt_hour :: nat
  dt_minute :: nat
  dt_second :: nat

text \<open>The ranges \<open>datetime\<close> guarantees, with a four-digit year.\<close>

definition datetime_ok :: "datetime \<Rightarrow> bool" where
  "datetime_ok dt \<longleftrightarrow>
     1000 \<le> dt_year dt \<and> dt_year dt \<le> 9999 \<and> 1 \<le> dt_month dt \<and> dt_month dt \<le> 12 \<and>
     1 \<le> dt_day dt \<and> dt_day dt \<le> 31 \<and> dt_hour dt < 24 \<and> dt_minute dt < 60 \<and> dt_second dt < 60"

text \<open>\<open>strftime\<close>'s two-digit fields, zero-padded.\<close>

definition pad2 :: "nat \<Rightarrow> string" where
  "pad2 n = (if n < 10 then CHR ''0'' # str_nat n else str_nat n)"

text \<open>Lines 25--27: \<open>now()\<close> formats the clock as \<open>%Y-%m-%d %H:%M:%S\<close>.\<close>

definition now_str :: "datetime \<Rightarrow> string" where
  "now_str dt =
     str_nat (dt_year dt) @ CHR ''-'' # pad2 (dt_month dt) @ CHR ''-'' # pad2 (dt_day dt) @ CHR '' '' #
     pad2 (dt_hour dt) @ CHR '':'' # pad2 (dt_minute dt) @ CHR '':'' # pad2 (dt_second dt)"

text \<open>Lines 29--31: \<open>time()\<close>, \<open>%Y%m%d\<close> (defined, not called by the script).\<close>

definition time_str :: "datetime \<Rightarrow> string" where
  "time_str dt = str_nat (dt_year dt) @ pad2 (dt_month dt) @ pad2 (dt_day dt)"

text \<open>Lines 182--186: the two banners before \<open>process_vcf\<close>; \<open>start\<close> is what
  \<open>now()\<close> returned.\<close>

definition calc_banner :: "string \<Rightarrow> string \<Rightarrow> string \<Rightarrow> string \<Rightarrow> string" where
  "calc_banner prog start vcf_path out_dir =
     prog @ '' started on '' @ start @ [newline] @
     [newline] @ ''    Input VCF:  '' @ vcf_path @ [newline] @
     ''    Output Dir: '' @ out_dir @ [newline, newline]"

text \<open>Lines 180--190: the checks, the banners, \<open>process_vcf\<close> (the table and the summary)
  and the closing line; \<open>start\<close> and \<open>finish\<close> are the two readings of the clock. The
  result is what is printed and the table written.\<close>

definition calc_main_text :: "(string \<Rightarrow> bool) \<Rightarrow> string \<Rightarrow> datetime \<Rightarrow> datetime \<Rightarrow> calc_args \<Rightarrow> string list \<Rightarrow>
    main_error + string \<times> string" where
  "calc_main_text ex argv0 start finish args lines =
     (case check_calc_args ex args of
        Inl e \<Rightarrow> Inl (CliError e)
      | Inr a \<Rightarrow>
          map_sum RunError
            (\<lambda>(tbl, summ). (calc_banner (prog_name argv0) (now_str start) (case vcf a of Some v \<Rightarrow> v | None \<Rightarrow> [])
                              (outdir a) @
                            summ @ [newline] @ prog_name argv0 @ '' finished on '' @ now_str finish @ [newline], tbl))
            (process_vcf_text lines))"

subsection \<open>Reading the files back\<close>

text \<open>A reader of one row of the table: the sample and the five counts by \<open>int()\<close>.\<close>

definition read_het_line :: "string \<Rightarrow> (string \<times> int res list) option" where
  "read_het_line l =
     (case py_split tab l of
        [smp, a, b, c, d, e, _, _] \<Rightarrow> Some (smp, map py_int [a, b, c, d, e])
      | _ \<Rightarrow> None)"

text \<open>A reader of one line of the whitelist.\<close>

definition read_wl_line :: "string \<Rightarrow> (int \<times> int) option" where
  "read_wl_line l =
     (case py_split tab l of
        [a, b] \<Rightarrow> (case (py_int a, py_int b) of (Inr x, Inr y) \<Rightarrow> Some (x, y) | _ \<Rightarrow> None)
      | _ \<Rightarrow> None)"

text \<open>A printed number read as a decimal: digits, a point, exactly \<open>p\<close> digits, and a
  value within \<open>eps\<close> of \<open>x\<close>.\<close>

definition decimal_near :: "nat \<Rightarrow> string \<Rightarrow> rat \<Rightarrow> rat \<Rightarrow> bool" where
  "decimal_near p str x eps =
     (case py_split (CHR ''.'') str of
        [ip, fp] \<Rightarrow> ip \<noteq> [] \<and> length fp = p \<and> list_all is_digit (ip @ fp) \<and>
                    \<bar>of_nat (digits_val (ip @ fp)) / 10 ^ p - x\<bar> \<le> eps
      | _ \<Rightarrow> False)"


text \<open>The exact mean and median of the counts, as rationals: what \<open>statistics.mean\<close> and
  \<open>statistics.median\<close> compute before any conversion to float.\<close>

definition mean_rat :: "nat list \<Rightarrow> rat" where
  "mean_rat xs = of_nat (sum_list xs) / of_nat (length xs)"

definition median_rat :: "nat list \<Rightarrow> rat" where
  "median_rat xs =
     (let ys = sort xs; n = length xs in
      if odd n then of_nat (ys ! (n div 2)) else of_nat (ys ! (n div 2 - 1) + ys ! (n div 2)) / 2)"


subsection \<open>Lemmas: splitting the files into lines and fields\<close>

lemma py_split_lines:
  "(\<forall>w \<in> set ws. c \<notin> set w) \<Longrightarrow> py_split c (concat (map (\<lambda>w. w @ [c]) ws)) = ws @ [[]]"
  by (induction ws) (simp_all add: py_split_append_sep)

lemma str_nat_no_ctrl [simp]: "tab \<notin> set (str_nat n)" "newline \<notin> set (str_nat n)"
  by (simp_all add: str_nat_no_char is_digit_def)

lemma str_int_no_ctrl [simp]: "tab \<notin> set (str_int i)" "newline \<notin> set (str_int i)"
  by (simp_all add: str_int_def)

lemma fmt_float_no_ctrl [simp]: "tab \<notin> set (fmt_float g p f)" "newline \<notin> set (fmt_float g p f)"
  using fmt_float_chars [of g p f] by (auto simp: is_digit_def)

lemma het_row_line_fields:
  "het_row_line r =
     py_join tab [row_sample r, str_nat (row_total r), str_nat (row_variant r), str_nat (row_sites r),
                  str_nat (row_vars r), str_nat (row_hets r),
                  fmt_float False 8 (prop_total r), fmt_float False 8 (prop_vars r)] @ [newline]"
  by (simp add: het_row_line_def)

lemma read_het_line_join:
  assumes "tab \<notin> set (row_sample r)"
  shows "read_het_line (butlast (het_row_line r)) =
    Some (row_sample r, map Inr [int (row_total r), int (row_variant r), int (row_sites r),
                                 int (row_vars r), int (row_hets r)])"
proof -
  have b: "butlast (het_row_line r) =
     py_join tab [row_sample r, str_nat (row_total r), str_nat (row_variant r), str_nat (row_sites r),
                  str_nat (row_vars r), str_nat (row_hets r),
                  fmt_float False 8 (prop_total r), fmt_float False 8 (prop_vars r)]"
    by (simp only: het_row_line_fields butlast_snoc)
  have "py_split tab (butlast (het_row_line r)) =
     [row_sample r, str_nat (row_total r), str_nat (row_variant r), str_nat (row_sites r),
      str_nat (row_vars r), str_nat (row_hets r),
      fmt_float False 8 (prop_total r), fmt_float False 8 (prop_vars r)]"
    unfolding b by (rule py_split_join) (use assms in simp_all)
  then show ?thesis by (simp add: read_het_line_def)
qed

lemma het_file_lines:
  "het_file rows = concat (map (\<lambda>w. w @ [newline]) (butlast het_header # map (butlast \<circ> het_row_line) rows))"
proof -
  have rl: "\<And>r. het_row_line r = butlast (het_row_line r) @ [newline]"
    by (simp only: het_row_line_fields butlast_snoc)
  define hh where "hh = butlast het_header"
  have hl: "het_header = hh @ [newline]" unfolding hh_def by (simp only: het_header_def butlast_snoc)
  have "map ((\<lambda>w. w @ [newline]) \<circ> (butlast \<circ> het_row_line)) rows = map het_row_line rows"
    by (simp add: comp_def rl [symmetric])
  then have m: "concat (map het_row_line rows) = concat (map ((\<lambda>w. w @ [newline]) \<circ> (butlast \<circ> het_row_line)) rows)"
    by (simp only:)
  show ?thesis unfolding het_file_def m hh_def [symmetric] hl by simp
qed

lemma het_row_line_no_newline:
  "newline \<notin> set (row_sample r) \<Longrightarrow> newline \<notin> set (butlast (het_row_line r))"
  unfolding het_row_line_fields butlast_snoc by simp

subsection \<open>Lemmas: the printed proportions\<close>

lemma decimal_near_fmt:
  assumes "0 \<le> v" "0 < p"
  shows "decimal_near p (fmt_float False p (Fin v)) v (1 / (2 * 10 ^ p))"
proof -
  obtain ip fp where f: "fmt_float False p (Fin v) = ip @ CHR ''.'' # fp"
    and r: "ip \<noteq> [] \<and> length fp = p \<and> list_all is_digit ip \<and> list_all is_digit fp"
    and b: "\<bar>of_nat (digits_val (ip @ fp)) / 10 ^ p - v\<bar> \<le> 1 / (2 * 10 ^ p)"
    using fmt_float_decimal [OF assms, of False] by auto
  have "CHR ''.'' \<notin> set ip" "CHR ''.'' \<notin> set fp" using r by (auto simp: list_all_iff is_digit_def)
  then have "py_split (CHR ''.'') (fmt_float False p (Fin v)) = [ip, fp]"
    unfolding f by (simp add: py_split_append_sep py_split_no_sep)
  then show ?thesis using r b by (simp add: decimal_near_def)
qed

lemma decimal_near_weaken:
  assumes "decimal_near p str x e" "\<bar>x - y\<bar> \<le> d"
  shows "decimal_near p str y (e + d)"
proof (cases "py_split (CHR ''.'') str")
  case (Cons ip rest)
  then show ?thesis
  proof (cases rest)
    case (Cons fp rest')
    with \<open>py_split (CHR ''.'') str = ip # rest\<close> assms show ?thesis
      by (cases rest') (auto simp: decimal_near_def)
  qed (use assms Cons in \<open>simp add: decimal_near_def\<close>)
qed (use assms in \<open>simp add: decimal_near_def\<close>)

lemma het_rows_divisions:
  "het_rows t i ss = Inr rs \<Longrightarrow> r \<in> set rs \<Longrightarrow>
     py_truediv (row_hets r) (row_sites r) = Inr (prop_total r) \<and>
     py_truediv (row_hets r) (row_vars r) = Inr (prop_vars r)"
proof (induction ss arbitrary: i rs)
  case (Cons s ss)
  then show ?case by (auto simp: res_simps)
qed simp

lemma division_near:
  assumes "py_truediv h n = Inr p"
  shows "decimal_near 8 (fmt_float False 8 p) (of_nat h / of_nat n)
           (1 / (2 * 10 ^ 8) + of_nat h / of_nat n / 2 ^ 53 + 1 / 2 ^ 1075)"
proof -
  have n: "0 < n" and d: "double_of_ratio h n = p" using py_truediv_Inr [OF assms] by auto
  obtain v where p: "p = Fin v" using assms n double_of_ratio_cases [of h n] by (auto simp: py_truediv_def)
  have v: "0 \<le> v" using double_of_ratio_nonneg d p by blast
  have e: "\<bar>v - of_nat h / of_nat n\<bar> \<le> of_nat h / of_nat n / 2 ^ 53 + 1 / 2 ^ 1075"
    using double_of_ratio_err [OF n] d p by blast
  show ?thesis using decimal_near_weaken [OF decimal_near_fmt [OF v, of 8] e] p by (simp add: add.assoc)
qed

lemma process_vcf_text_eq:
  "parse_vcf ls = Inr t \<Longrightarrow> process_vcf ls = Inr (rows, s) \<Longrightarrow>
     process_vcf_text ls = rbind (summary_text t s) (\<lambda>txt. Inr (het_file rows, vcf_progress ls @ txt))"
  by (simp add: process_vcf_text_def process_vcf_def)

lemma ex_vcf_progress:
  "vcf_progress ex_vcf = ''Parsing VCF...'' @ [newline] @ ''    Processing genotypes for 3 samples.'' @ [newline, newline]"
  by (simp add: vcf_progress_def ex_vcf_def py_startswith_def vcf_fields_def py_strip_def py_lstrip_def
      py_rstrip_def fmt_eval)

lemma process_vcf_rows:
  "process_vcf ls = Inr (rows, s) \<Longrightarrow> \<exists>t. het_rows t 0 (samples t) = Inr rows"
  by (auto simp: process_vcf_def het_report_def res_simps)

lemma whitelist_lines:
  "concat (map (\<lambda>(loc, col). str_int loc @ tab # str_int col @ [newline]) rows) =
   concat (map (\<lambda>w. w @ [newline]) (map (\<lambda>(loc, col). str_int loc @ tab # str_int col) rows))"
  by (induction rows) auto

lemma read_wl_line_str: "read_wl_line (str_int l @ tab # str_int c) = Some (l, c)"
  by (simp add: read_wl_line_def py_split_append_sep py_split_no_sep)


lemma whitelist_file_roundtrip:
  "\<exists>txt ls. whitelist_file (Written warned rows) = Some txt \<and> py_split newline txt = ls @ [[]] \<and>
     map read_wl_line ls = map Some rows"
proof -
  let ?ls = "map (\<lambda>(loc, col). str_int loc @ tab # str_int col) rows"
  have "py_split newline (concat (map (\<lambda>w. w @ [newline]) ?ls)) = ?ls @ [[]]"
    by (rule py_split_lines) auto
  moreover have "map read_wl_line ?ls = map Some rows" by (induction rows) (auto simp: read_wl_line_str)
  ultimately show ?thesis by (simp add: whitelist_file_def whitelist_lines)
qed

subsection \<open>Lemmas: formatting the statistics never overflows\<close>

lemma py_convert_IntVal: "py_convert q = Inr (IntVal i) \<Longrightarrow> of_int i = q"
proof -
  assume c: "py_convert q = Inr (IntVal i)"
  obtain n d where nd: "quotient_of q = (n, d)" by fastforce
  have "d = 1 \<and> i = n" using c nd by (auto simp: py_convert_def split: if_splits pyfloat.splits)
  then show ?thesis using quotient_of_div [OF nd] by simp
qed

subsection \<open>Lemmas: a grouped count without its commas\<close>

lemma group3_rev_digits: "filter is_digit (group3_rev s) = filter is_digit s"
  by (induction s rule: group3_rev.induct) (auto simp: is_digit_def)

lemma fmt_int_group_val: "digits_val (filter is_digit (fmt_int_group (int n))) = n"
proof -
  have "filter is_digit (str_nat n) = str_nat n" using str_nat_digits [of n] by (simp add: list_all_iff)
  then show ?thesis by (simp add: fmt_int_group_def group_digits_def rev_filter [symmetric] group3_rev_digits)
qed

subsection \<open>Lemmas: the clock strings\<close>

lemma length_str_nat_ge: "10 ^ k \<le> n \<Longrightarrow> k < length (str_nat n)"
proof (induction n arbitrary: k rule: str_nat.induct)
  case (1 n)
  show ?case
  proof (cases k)
    case 0
    then show ?thesis by simp
  next
    case (Suc k')
    have a: "10 * 10 ^ k' \<le> n" using "1.prems" Suc by simp
    have b: "(10::nat) \<le> 10 * 10 ^ k'" by simp
    from a b have n: "\<not> n < 10" by linarith
    have "10 ^ k' * 10 div 10 \<le> n div 10" using a by (intro div_le_mono) (simp add: mult.commute)
    then have "10 ^ k' \<le> n div 10" by simp
    then have "k' < length (str_nat (n div 10))" using "1.IH" n by simp
    then show ?thesis using n Suc by (subst str_nat.simps) simp
  qed
qed

lemma pad2_props: "n < 100 \<Longrightarrow> length (pad2 n) = 2 \<and> py_int (pad2 n) = Inr (int n) \<and> list_all is_digit (pad2 n)"
proof -
  assume n: "n < 100"
  have d: "list_all is_digit (pad2 n)" using str_nat_digits [of n] by (simp add: pad2_def is_digit_def)
  have v: "digits_val (pad2 n) = n"
  proof -
    have z: "digits_val [CHR ''0''] = 0" by (simp add: digits_val_def digit_val_def)
    show ?thesis using digits_val_append [of "[CHR ''0'']" "str_nat n"] z by (simp add: pad2_def)
  qed
  have "length (pad2 n) = 2"
  proof (cases "n < 10")
    case True
    have "0 < length (str_nat n)" by simp
    moreover have "length (str_nat n) \<le> 1" using True length_str_nat_le [of n 1] by simp
    ultimately have "length (str_nat n) = 1" by linarith
    then show ?thesis using True by (simp add: pad2_def)
  next
    case False
    then show ?thesis using n length_str_nat_le [of n 2] length_str_nat_ge [of 1 n] by (simp add: pad2_def)
  qed
  moreover have "py_isnumeric (pad2 n)" using d \<open>length (pad2 n) = 2\<close> by (auto simp: py_isnumeric_def)
  ultimately show ?thesis using d v by (simp add: py_int_numeric)
qed

lemma pad2_no_sep [simp]: "CHR ''-'' \<notin> set (pad2 n)" "CHR '':'' \<notin> set (pad2 n)" "CHR '' '' \<notin> set (pad2 n)"
  by (simp_all add: pad2_def str_nat_no_char is_digit_def)

lemma str_nat_no_sep [simp]: "CHR ''-'' \<notin> set (str_nat n)" "CHR '':'' \<notin> set (str_nat n)" "CHR '' '' \<notin> set (str_nat n)"
  by (simp_all add: str_nat_no_char is_digit_def)

subsection \<open>Lemmas: the printed percentage\<close>

lemma tiny_le: "(1::rat) / 2 ^ 1075 \<le> 1 / 2 ^ 60"
proof (rule divide_left_mono)
  show "(2::rat) ^ 60 \<le> 2 ^ 1075" by (rule power_increasing) simp_all
qed simp_all

lemma percent_err:
  fixes w v q e :: rat
  assumes "\<bar>w - v * 100\<bar> \<le> \<bar>v * 100\<bar> / 2 ^ 53 + e" "\<bar>v - q\<bar> \<le> q / 2 ^ 53 + e"
    "0 \<le> v" "v \<le> 1" "0 \<le> q" "q \<le> 1" "0 \<le> e" "e \<le> 1 / 2 ^ 60"
  shows "\<bar>w - 100 * q\<bar> \<le> 1 / 2 ^ 45"
proof -
  have "\<bar>v * 100\<bar> / 2 ^ 53 \<le> 100 / 2 ^ 53" using assms(3,4) by (simp add: divide_right_mono)
  moreover have "q / 2 ^ 53 \<le> 1 / 2 ^ 53" using assms(6) by (simp add: divide_right_mono)
  moreover have "\<bar>w - 100 * q\<bar> \<le> \<bar>w - v * 100\<bar> + 100 * \<bar>v - q\<bar>"
  proof -
    have e: "w - 100 * q = (w - v * 100) + (v - q) * 100" by (simp add: algebra_simps)
    have t: "\<bar>w - 100 * q\<bar> \<le> \<bar>w - v * 100\<bar> + \<bar>(v - q) * 100\<bar>" unfolding e by (rule abs_triangle_ineq)
    have m: "\<bar>(v - q) * 100\<bar> = 100 * \<bar>v - q\<bar>" by (subst abs_mult) simp
    show ?thesis using t unfolding m .
  qed
  ultimately show ?thesis using assms(1,2,7,8) by simp
qed

lemma percent_near:
  assumes "py_truediv a b = Inr f" "a \<le> b"
  shows "\<exists>pre. fmt_percent 3 f = pre @ ''%'' \<and>
    decimal_near 3 pre (100 * of_nat a / of_nat b) (1 / (2 * 10 ^ 3) + 1 / 2 ^ 45)"
proof -
  have b: "0 < b" and d: "double_of_ratio a b = f" using py_truediv_Inr [OF assms(1)] by auto
  obtain v where f: "f = Fin v" using assms(1) b double_of_ratio_cases [of a b] by (auto simp: py_truediv_def)
  have v: "0 \<le> v" "v \<le> 1" using py_truediv_unit [OF assms(2,1)] f by (auto simp: flt_le_def)
  have q: "0 \<le> (of_nat a / of_nat b :: rat)" "(of_nat a / of_nat b :: rat) \<le> 1" using assms(2) b by simp_all
  have ev: "\<bar>v - of_nat a / of_nat b\<bar> \<le> of_nat a / of_nat b / 2 ^ 53 + 1 / 2 ^ 1075"
    using double_of_ratio_err [OF b] d f by blast
  have "v * 100 \<le> 2 ^ 1023" using v by simp
  then obtain w where w: "round_rat (v * 100) = Fin w" using round_rat_finite [of "v * 100"] v by auto
  have w0: "0 \<le> w" using round_rat_nonneg [OF _ w] v by simp
  have "\<bar>w - 100 * (of_nat a / of_nat b)\<bar> \<le> 1 / 2 ^ 45"
    using percent_err [OF round_rat_err [OF w] ev v q _ tiny_le] by simp
  then have e: "\<bar>w - 100 * of_nat a / of_nat b\<bar> \<le> 1 / 2 ^ 45" by simp
  have "decimal_near 3 (fmt_float False 3 (Fin w)) (100 * of_nat a / of_nat b) (1 / (2 * 10 ^ 3) + 1 / 2 ^ 45)"
    by (rule decimal_near_weaken [OF decimal_near_fmt [OF w0, of 3] e]) simp
  then show ?thesis using f w by (simp add: fmt_percent_def)
qed

subsection \<open>Lemmas: the printed mean and median\<close>

lemma group3_rev_commas:
  "filter (\<lambda>c. c \<noteq> CHR '','') (group3_rev s) = filter (\<lambda>c. c \<noteq> CHR '','') s"
  by (induction s rule: group3_rev.induct) auto

lemma group_digits_ungroup:
  assumes "CHR '','' \<notin> set s"
  shows "filter (\<lambda>c. c \<noteq> CHR '','') (group_digits s) = s"
proof -
  have "filter (\<lambda>c. c \<noteq> CHR '','') (rev s) = rev s" using assms by (auto simp: filter_id_conv)
  then show ?thesis by (simp add: group_digits_def rev_filter [symmetric] group3_rev_commas)
qed

lemma fmt_float_ungroup:
  assumes "0 \<le> w"
  shows "filter (\<lambda>c. c \<noteq> CHR '','') (fmt_float True p (Fin w)) = fmt_float False p (Fin w)"
proof -
  have nc: "\<And>m. CHR '','' \<notin> set (str_nat m)" by (simp add: str_nat_no_char is_digit_def)
  then show ?thesis using assms
    by (auto simp: fixed_str_def Let_def group_digits_ungroup filter_id_conv set_replicate_conv_if)
qed

lemma fmt_float_grouped_near:
  assumes "0 \<le> w" "\<bar>w - q\<bar> \<le> d"
  shows "decimal_near 3 (filter (\<lambda>c. c \<noteq> CHR '','') (fmt_float True 3 (Fin w))) q (1 / (2 * 10 ^ 3) + d)"
  unfolding fmt_float_ungroup [OF assms(1)]
  by (rule decimal_near_weaken [OF decimal_near_fmt [OF assms(1)] assms(2)]) simp

lemma round_rat_grouped_near:
  assumes "0 \<le> q" "q \<le> 2 ^ 1023"
  shows "\<exists>w. round_rat q = Fin w \<and>
    decimal_near 3 (filter (\<lambda>c. c \<noteq> CHR '','') (fmt_float True 3 (Fin w))) q
      (1 / (2 * 10 ^ 3) + q / 2 ^ 53 + 1 / 2 ^ 1075)"
proof -
  obtain w where w: "round_rat q = Fin w" using round_rat_finite [OF assms] by blast
  have w0: "0 \<le> w" using round_rat_nonneg [OF assms(1) w] .
  have e: "\<bar>w - q\<bar> \<le> q / 2 ^ 53 + 1 / 2 ^ 1075" using round_rat_err [OF w] assms(1) by simp
  show ?thesis using w fmt_float_grouped_near [OF w0 e] unfolding add.assoc by blast
qed

lemma fmt_num_IntVal_near:
  assumes "0 \<le> i" "of_int i \<le> (2 ^ 1023 :: rat)"
  shows "\<exists>m. fmt_num True 3 (IntVal i) = Inr m \<and>
    decimal_near 3 (filter (\<lambda>c. c \<noteq> CHR '','') m) (of_int i)
      (1 / (2 * 10 ^ 3) + of_int i / 2 ^ 53 + 1 / 2 ^ 1075)"
proof -
  obtain w where w: "round_rat (of_int i) = Fin w"
    and n: "decimal_near 3 (filter (\<lambda>c. c \<noteq> CHR '','') (fmt_float True 3 (Fin w))) (of_int i)
      (1 / (2 * 10 ^ 3) + of_int i / 2 ^ 53 + 1 / 2 ^ 1075)"
    using round_rat_grouped_near [of "of_int i"] assms by auto
  have "fmt_num True 3 (IntVal i) = Inr (fmt_float True 3 (Fin w))" by (simp add: py_int_float_def w)
  then show ?thesis using n by blast
qed

lemma fmt_num_convert_near:
  assumes "py_convert q = Inr v" "0 \<le> q" "q \<le> 2 ^ 1023"
  shows "\<exists>m. fmt_num True 3 v = Inr m \<and>
    decimal_near 3 (filter (\<lambda>c. c \<noteq> CHR '','') m) q (1 / (2 * 10 ^ 3) + q / 2 ^ 53 + 1 / 2 ^ 1075)"
proof (cases v)
  case (IntVal i)
  have "of_int i = q" using py_convert_IntVal assms(1) IntVal by blast
  then show ?thesis using fmt_num_IntVal_near [of i] assms(2,3) IntVal by auto
next
  case (FloatVal f)
  obtain w where w: "round_rat q = Fin w"
    and n: "decimal_near 3 (filter (\<lambda>c. c \<noteq> CHR '','') (fmt_float True 3 (Fin w))) q
      (1 / (2 * 10 ^ 3) + q / 2 ^ 53 + 1 / 2 ^ 1075)"
    using round_rat_grouped_near [OF assms(2,3)] by blast
  obtain n' d where nd: "quotient_of q = (n', d)" by fastforce
  have "f = Fin w" using assms(1) FloatVal w nd by (auto simp: py_convert_def split: if_splits)
  then show ?thesis using FloatVal n by simp
qed

lemma mean_rat_le:
  assumes "xs \<noteq> []" "\<forall>x \<in> set xs. x \<le> c"
  shows "0 \<le> mean_rat xs \<and> mean_rat xs \<le> of_nat c"
proof -
  have "sum_list xs \<le> length xs * c" using sum_list_le_bound [OF assms(2)] .
  then have "(of_nat (sum_list xs) :: rat) \<le> of_nat (length xs) * of_nat c"
    by (metis of_nat_le_iff of_nat_mult)
  then show ?thesis using assms(1) by (simp add: mean_rat_def divide_le_eq mult.commute)
qed

lemma median_rat_le:
  assumes "xs \<noteq> []" "\<forall>x \<in> set xs. x \<le> c"
  shows "0 \<le> median_rat xs \<and> median_rat xs \<le> of_nat c"
proof -
  let ?ys = "sort xs" and ?n = "length xs"
  have le: "\<And>i. i < ?n \<Longrightarrow> ?ys ! i \<le> c" using assms(2) by (metis length_sort nth_mem set_sort)
  have n: "0 < ?n" using assms(1) by simp
  show ?thesis
  proof (cases "odd ?n")
    case True
    have "?n div 2 < ?n" using n by simp
    then show ?thesis using True le [of "?n div 2"] by (simp add: median_rat_def Let_def)
  next
    case False
    then have "2 \<le> ?n" using n by presburger
    then have "?ys ! (?n div 2 - 1) + ?ys ! (?n div 2) \<le> 2 * c" using le by (simp add: add_mono mult_2)
    then have "(of_nat (?ys ! (?n div 2 - 1) + ?ys ! (?n div 2)) :: rat) \<le> 2 * of_nat c"
      by (metis of_nat_le_iff of_nat_mult of_nat_numeral)
    then show ?thesis using False by (simp add: median_rat_def Let_def)
  qed
qed

lemma fmt_num_mean_near:
  assumes "py_mean xs = Inr v" "\<forall>x \<in> set xs. x \<le> c" "c \<le> 2 ^ 1023"
  shows "\<exists>m. fmt_num True 3 v = Inr m \<and>
    decimal_near 3 (filter (\<lambda>c. c \<noteq> CHR '','') m) (mean_rat xs)
      (1 / (2 * 10 ^ 3) + mean_rat xs / 2 ^ 53 + 1 / 2 ^ 1075)"
proof -
  have ne: "xs \<noteq> []" using assms(1) by (auto simp: py_mean_def)
  have c: "(of_nat c :: rat) \<le> 2 ^ 1023" using assms(3) by (metis of_nat_le_iff of_nat_numeral of_nat_power)
  have "py_convert (mean_rat xs) = Inr v" using assms(1) ne by (simp add: py_mean_def mean_rat_def)
  then show ?thesis using fmt_num_convert_near mean_rat_le [OF ne assms(2)] c by (meson order_trans)
qed

lemma fmt_num_median_near:
  assumes "py_median xs = Inr v" "\<forall>x \<in> set xs. x \<le> c" "c \<le> 2 ^ 1023"
  shows "\<exists>m. fmt_num True 3 v = Inr m \<and>
    decimal_near 3 (filter (\<lambda>c. c \<noteq> CHR '','') m) (median_rat xs)
      (1 / (2 * 10 ^ 3) + median_rat xs / 2 ^ 53 + 1 / 2 ^ 1075)"
proof -
  let ?ys = "sort xs" and ?n = "length xs"
  have ne: "xs \<noteq> []" using assms(1) by (auto simp: py_median_def Let_def)
  have c: "(of_nat c :: rat) \<le> 2 ^ 1023" using assms(3) by (metis of_nat_le_iff of_nat_numeral of_nat_power)
  have b: "0 \<le> median_rat xs" "median_rat xs \<le> 2 ^ 1023" using median_rat_le [OF ne assms(2)] c by auto
  have ys: "?ys \<noteq> []" using ne by (metis length_0_conv length_sort)
  show ?thesis
  proof (cases "odd ?n")
    case True
    from ys have "py_median xs = Inr (IntVal (int (?ys ! (?n div 2))))"
      using True by (simp add: py_median_def Let_def odd_iff_mod_2_eq_one)
    then have v: "v = IntVal (int (?ys ! (?n div 2)))" using assms(1) by simp
    have q: "median_rat xs = of_int (int (?ys ! (?n div 2)))" using True by (simp add: median_rat_def Let_def)
    show ?thesis using fmt_num_IntVal_near [of "int (?ys ! (?n div 2))"] b v q by simp
  next
    case False
    then obtain r where r: "py_truediv (?ys ! (?n div 2 - 1) + ?ys ! (?n div 2)) 2 = Inr r" and v: "v = FloatVal r"
      using assms(1) ys by (auto simp: py_median_def Let_def res_simps odd_iff_mod_2_eq_one)
    have d: "double_of_ratio (?ys ! (?n div 2 - 1) + ?ys ! (?n div 2)) 2 = r" using py_truediv_Inr [OF r] by simp
    obtain w where w: "r = Fin w" using r double_of_ratio_cases [of "?ys ! (?n div 2 - 1) + ?ys ! (?n div 2)" 2]
      by (auto simp: py_truediv_def)
    have q: "median_rat xs = of_nat (?ys ! (?n div 2 - 1) + ?ys ! (?n div 2)) / of_nat 2"
      using False by (simp add: median_rat_def Let_def)
    have "0 \<le> w" using double_of_ratio_nonneg d w by blast
    moreover have "\<bar>w - median_rat xs\<bar> \<le> median_rat xs / 2 ^ 53 + 1 / 2 ^ 1075"
    proof -
      have "\<bar>w - of_nat (?ys ! (?n div 2 - 1) + ?ys ! (?n div 2)) / of_nat 2\<bar> \<le>
          of_nat (?ys ! (?n div 2 - 1) + ?ys ! (?n div 2)) / of_nat 2 / 2 ^ 53 + 1 / 2 ^ 1075"
        by (rule double_of_ratio_err) (use d w in simp_all)
      then show ?thesis by (simp only: q)
    qed
    ultimately have n: "decimal_near 3 (filter (\<lambda>c. c \<noteq> CHR '','') (fmt_float True 3 (Fin w))) (median_rat xs)
        (1 / (2 * 10 ^ 3) + (median_rat xs / 2 ^ 53 + 1 / 2 ^ 1075))"
      by (rule fmt_float_grouped_near)
    have "fmt_num True 3 v = Inr (fmt_float True 3 (Fin w))" using v w by simp
    then show ?thesis using n unfolding add.assoc by blast
  qed
qed

subsection \<open>Properties of the output\<close>

text \<open>
  C24 (roundtrip). The table \<open>per_individual_heterozygosity.tsv\<close> reads back: when no
  sample name holds a tab or a newline, splitting the file at newlines gives the header
  and one line per row, and splitting each row at tabs and reading the five count columns
  with \<open>int()\<close> gives back the sample and its counts.
\<close>
theorem het_file_roundtrip:
  assumes "\<forall>r \<in> set rows. tab \<notin> set (row_sample r) \<and> newline \<notin> set (row_sample r)"
  shows "\<exists>ls. py_split newline (het_file rows) = butlast het_header # ls @ [[]] \<and>
    map read_het_line ls =
      map (\<lambda>r. Some (row_sample r, map Inr [int (row_total r), int (row_variant r), int (row_sites r),
                                          int (row_vars r), int (row_hets r)])) rows"
proof -
  have "\<forall>w \<in> set (butlast het_header # map (butlast \<circ> het_row_line) rows). newline \<notin> set w"
    using assms het_row_line_no_newline by (auto simp: het_header_def)
  then have "py_split newline (het_file rows) = (butlast het_header # map (butlast \<circ> het_row_line) rows) @ [[]]"
    unfolding het_file_lines by (rule py_split_lines)
  moreover have "map read_het_line (map (butlast \<circ> het_row_line) rows) =
      map (\<lambda>r. Some (row_sample r, map Inr [int (row_total r), int (row_variant r), int (row_sites r),
                                          int (row_vars r), int (row_hets r)])) rows"
    using assms read_het_line_join by simp
  ultimately show ?thesis by auto
qed

theorem het_file_roundtrip_witness:
  "\<exists>ls. py_split newline (het_file [\<lparr>row_sample = ''SAMPLE1'', row_total = 4, row_variant = 2, row_sites = 3,
         row_vars = 2, row_hets = 1, prop_total = Fin (1/4), prop_vars = Fin (1/2)\<rparr>]) = butlast het_header # ls @ [[]] \<and>
     map read_het_line ls = [Some (''SAMPLE1'', map Inr [4, 2, 3, 2, 1])]"
  using het_file_roundtrip [of "[\<lparr>row_sample = ''SAMPLE1'', row_total = 4, row_variant = 2, row_sites = 3,
         row_vars = 2, row_hets = 1, prop_total = Fin (1/4), prop_vars = Fin (1/2)\<rparr>]"] by simp

text \<open>
  C25 (bounds). Every row of a successful run ends in two decimals with exactly eight
  digits after the point; each reads as a number within half a unit of the eighth decimal
  of the exact proportion \<open>hets / sites\<close> (resp. \<open>hets / variant sites\<close>), up to the
  relative error \<open>2^-53\<close> of the double that \<open>/\<close> computes and the subnormal spacing.
\<close>
theorem het_row_printed_props:
  assumes "process_vcf ls = Inr (rows, s)" "r \<in> set rows"
  shows "\<exists>pre pt pv. het_row_line r = pre @ tab # pt @ tab # pv @ [newline] \<and>
    decimal_near 8 pt (of_nat (row_hets r) / of_nat (row_sites r))
      (1 / (2 * 10 ^ 8) + of_nat (row_hets r) / of_nat (row_sites r) / 2 ^ 53 + 1 / 2 ^ 1075) \<and>
    decimal_near 8 pv (of_nat (row_hets r) / of_nat (row_vars r))
      (1 / (2 * 10 ^ 8) + of_nat (row_hets r) / of_nat (row_vars r) / 2 ^ 53 + 1 / 2 ^ 1075)"
proof -
  obtain t where "het_rows t 0 (samples t) = Inr rows" using process_vcf_rows [OF assms(1)] by blast
  then have d: "py_truediv (row_hets r) (row_sites r) = Inr (prop_total r)"
      "py_truediv (row_hets r) (row_vars r) = Inr (prop_vars r)"
    using het_rows_divisions assms(2) by blast+
  have "het_row_line r =
      (row_sample r @ tab # str_nat (row_total r) @ tab # str_nat (row_variant r) @ tab #
       str_nat (row_sites r) @ tab # str_nat (row_vars r) @ tab # str_nat (row_hets r)) @ tab #
      fmt_float False 8 (prop_total r) @ tab # fmt_float False 8 (prop_vars r) @ [newline]"
    by (simp add: het_row_line_def)
  then show ?thesis using division_near [OF d(1)] division_near [OF d(2)] by blast
qed

theorem het_row_printed_props_witness:
  "\<exists>pre pt pv. het_row_line \<lparr>row_sample = ''SAMPLE1'', row_total = 4, row_variant = 2, row_sites = 3, row_vars = 2,
        row_hets = 1, prop_total = Fin (6004799503160661 / 18014398509481984), prop_vars = Fin (1/2)\<rparr> =
      pre @ tab # pt @ tab # pv @ [newline] \<and>
    decimal_near 8 pt (1 / 3) (1 / (2 * 10 ^ 8) + 1 / 3 / 2 ^ 53 + 1 / 2 ^ 1075) \<and>
    decimal_near 8 pv (1 / 2) (1 / (2 * 10 ^ 8) + 1 / 2 / 2 ^ 53 + 1 / 2 ^ 1075)"
  using het_row_printed_props [OF ex_vcf_processed, where r = "\<lparr>row_sample = ''SAMPLE1'', row_total = 4,
      row_variant = 2, row_sites = 3, row_vars = 2, row_hets = 1,
      prop_total = Fin (6004799503160661 / 18014398509481984), prop_vars = Fin (1/2)\<rparr>"] by simp

text \<open>
  On the three-sample, four-site example, \<open>process_vcf\<close> writes the
  table with the hand-computed counts and the proportions to eight decimals, and prints
  the progress messages and the summary: 4 sites, 2 variant (50.000\%), mean and median
  1.000, standard deviation 0.000.
\<close>
lemma process_vcf_text_example:
  "process_vcf_text ex_vcf =
    Inr (het_header @
       py_join tab [''SAMPLE1'', ''4'', ''2'', ''3'', ''2'', ''1'', ''0.33333333'', ''0.50000000''] @ [newline] @
       py_join tab [''SAMPLE2'', ''4'', ''2'', ''4'', ''2'', ''1'', ''0.25000000'', ''0.50000000''] @ [newline] @
       py_join tab [''SAMPLE3'', ''4'', ''2'', ''3'', ''1'', ''1'', ''0.33333333'', ''1.00000000''] @ [newline],
       ''Parsing VCF...'' @ [newline] @ ''    Processing genotypes for 3 samples.'' @ [newline, newline] @
       ''Read a total of 4 sites in the VCF.'' @ [newline] @
       ''    A total of 2 (50.000%) were variant sites.'' @ [newline, newline] @
       ''Average heterozygous sites per individual:'' @ [newline] @
       ''    Mean:   1.000'' @ [newline] @ ''    Median: 1.000'' @ [newline] @ ''    StDev:  0.000'' @ [newline])"
  by (simp add: process_vcf_text_eq [OF ex_vcf_parsed ex_vcf_processed] summary_text_def het_file_def
      het_row_line_def fmt_eval float_eval py_int_float_def ex_vcf_progress)


text \<open>
  The eight decimals of a row are those of the double \<open>hets / sites\<close>
  rounded half to even, not those of the exact ratio. \<open>1/512 = 0.001953125\<close> is a double
  and prints as \<open>0.00195312\<close>; \<open>3/2560 = 0.001171875\<close> and \<open>1/2560 = 0.000390625\<close> are not
  doubles: \<open>3/2560\<close> prints as \<open>0.00117187\<close> (its double lies below the midpoint) and
  \<open>1/2560\<close> as \<open>0.00039063\<close> (its double lies above). Rounding the exact ratio half up by
  hand gives a different last digit for the first two.
\<close>
lemma het_rows_midpoints:
  "rbind (het_rows \<lparr>total_sites = 2560, variant_sites = 2560, per_indv_sites = [512, 2560, 2560],
             per_indv_vars = [512, 2560, 2560], per_indv_hets = [1, 3, 1], samples = [''A'', ''B'', ''C'']\<rparr>
           0 [''A'', ''B'', ''C''])
     (\<lambda>rows. Inr (map het_row_line rows)) =
   Inr [py_join tab [''A'', ''2560'', ''2560'', ''512'', ''512'', ''1'', ''0.00195312'', ''0.00195312''] @ [newline],
        py_join tab [''B'', ''2560'', ''2560'', ''2560'', ''2560'', ''3'', ''0.00117187'', ''0.00117187''] @ [newline],
        py_join tab [''C'', ''2560'', ''2560'', ''2560'', ''2560'', ''1'', ''0.00039063'', ''0.00039063''] @ [newline]]"
  by (simp add: het_row_line_def fmt_eval float_eval py_truediv_def)

text \<open>
  C27 (bounds). Whenever the calculator's \<open>main\<close> computes the report and no count exceeds
  \<open>2^1023\<close>, it prints it without exception and writes the table, and its output ends in
  the statistics block and the closing line: the \<open>Mean:\<close> and \<open>Median:\<close> values, with
  their thousands separators removed, are decimals with three digits after the point
  within half a unit of the last of them (plus the relative \<open>2^-53\<close> of the conversion to
  float) of the exact mean and median of the heterozygous counts.
\<close>
theorem calc_main_mean_median:
  assumes "calc_main ex args lines = Inr (rows, s)" "parse_vcf lines = Inr t" "total_sites t \<le> 2 ^ 1023"
  shows "\<exists>pre m md sd. calc_main_text ex argv0 start finish args lines =
      Inr (pre @ ''Average heterozygous sites per individual:'' @ [newline] @ ''    Mean:   '' @ m @ [newline] @
           ''    Median: '' @ md @ [newline] @ ''    StDev:  '' @ sd @ [newline, newline] @
           prog_name argv0 @ '' finished on '' @ now_str finish @ [newline], het_file rows) \<and>
    decimal_near 3 (filter (\<lambda>c. c \<noteq> CHR '','') m) (mean_rat (per_indv_hets t))
      (1 / (2 * 10 ^ 3) + mean_rat (per_indv_hets t) / 2 ^ 53 + 1 / 2 ^ 1075) \<and>
    decimal_near 3 (filter (\<lambda>c. c \<noteq> CHR '','') md) (median_rat (per_indv_hets t))
      (1 / (2 * 10 ^ 3) + median_rat (per_indv_hets t) / 2 ^ 53 + 1 / 2 ^ 1075)"
proof -
  obtain a where a: "check_calc_args ex args = Inr a" and p: "process_vcf lines = Inr (rows, s)"
    using assms(1) by (cases "check_calc_args ex args") (auto simp: calc_main_def res_simps)
  have inv: "tally_inv t" by (rule parse_vcf_tally_inv [OF assms(2)])
  have "summarise t = Inr s"
    using assms(2) p by (auto simp: process_vcf_def het_report_def res_simps)
  note st = summarise_stats [OF this]
  have hb: "\<forall>x \<in> set (per_indv_hets t). x \<le> total_sites t" by (rule hets_bounded [OF inv])
  obtain m where m: "fmt_num True 3 (mean_hets s) = Inr m"
    and mn: "decimal_near 3 (filter (\<lambda>c. c \<noteq> CHR '','') m) (mean_rat (per_indv_hets t))
      (1 / (2 * 10 ^ 3) + mean_rat (per_indv_hets t) / 2 ^ 53 + 1 / 2 ^ 1075)"
    using fmt_num_mean_near [OF conjunct1 [OF st] hb assms(3)] by blast
  obtain md where md: "fmt_num True 3 (median_hets s) = Inr md"
    and mdn: "decimal_near 3 (filter (\<lambda>c. c \<noteq> CHR '','') md) (median_rat (per_indv_hets t))
      (1 / (2 * 10 ^ 3) + median_rat (per_indv_hets t) / 2 ^ 53 + 1 / 2 ^ 1075)"
    using fmt_num_median_near [OF conjunct2 [OF st] hb assms(3)] by blast
  define pre where "pre = calc_banner (prog_name argv0) (now_str start) (case vcf a of Some v \<Rightarrow> v | None \<Rightarrow> [])
      (outdir a) @ vcf_progress lines @
    ''Read a total of '' @ fmt_int_group (int (total_sites t)) @ '' sites in the VCF.'' @ [newline] @
    ''    A total of '' @ fmt_int_group (int (variant_sites t)) @ '' ('' @
      fmt_percent 3 (variant_frac s) @ '') were variant sites.'' @ [newline, newline]"
  have "calc_main_text ex argv0 start finish args lines =
      Inr (pre @ ''Average heterozygous sites per individual:'' @ [newline] @ ''    Mean:   '' @ m @ [newline] @
           ''    Median: '' @ md @ [newline] @ ''    StDev:  '' @ fmt_float True 3 (sd_hets s) @ [newline, newline] @
           prog_name argv0 @ '' finished on '' @ now_str finish @ [newline], het_file rows)"
    using a m md by (simp add: calc_main_text_def process_vcf_text_eq [OF assms(2) p] summary_text_def pre_def)
  then show ?thesis using mn mdn by blast
qed

theorem calc_main_mean_median_witness:
  "\<exists>pre m md sd. calc_main_text (\<lambda>p. True) ''calculate_idnv_obs_het.py''
      \<lparr>dt_year = 2026, dt_month = 1, dt_day = 2, dt_hour = 9, dt_minute = 5, dt_second = 0\<rparr>
      \<lparr>dt_year = 2026, dt_month = 1, dt_day = 2, dt_hour = 9, dt_minute = 5, dt_second = 1\<rparr>
      \<lparr>vcf = Some ''populations.all.vcf'', outdir = ''.''\<rparr> ex_vcf =
    Inr (pre @ ''Average heterozygous sites per individual:'' @ [newline] @ ''    Mean:   '' @ m @ [newline] @
           ''    Median: '' @ md @ [newline] @ ''    StDev:  '' @ sd @ [newline, newline] @
           prog_name ''calculate_idnv_obs_het.py'' @ '' finished on '' @
           now_str \<lparr>dt_year = 2026, dt_month = 1, dt_day = 2, dt_hour = 9, dt_minute = 5, dt_second = 1\<rparr> @ [newline],
         het_file [\<lparr>row_sample = ''SAMPLE1'', row_total = 4, row_variant = 2, row_sites = 3, row_vars = 2, row_hets = 1,
          prop_total = Fin (6004799503160661 / 18014398509481984), prop_vars = Fin (1/2)\<rparr>,
        \<lparr>row_sample = ''SAMPLE2'', row_total = 4, row_variant = 2, row_sites = 4, row_vars = 2, row_hets = 1,
          prop_total = Fin (1/4), prop_vars = Fin (1/2)\<rparr>,
        \<lparr>row_sample = ''SAMPLE3'', row_total = 4, row_variant = 2, row_sites = 3, row_vars = 1, row_hets = 1,
          prop_total = Fin (6004799503160661 / 18014398509481984), prop_vars = Fin 1\<rparr>]) \<and>
    decimal_near 3 (filter (\<lambda>c. c \<noteq> CHR '','') m) 1 (1 / (2 * 10 ^ 3) + 1 / 2 ^ 53 + 1 / 2 ^ 1075) \<and>
    decimal_near 3 (filter (\<lambda>c. c \<noteq> CHR '','') md) 1 (1 / (2 * 10 ^ 3) + 1 / 2 ^ 53 + 1 / 2 ^ 1075)"
proof -
  have c: "calc_main (\<lambda>p. True) \<lparr>vcf = Some ''populations.all.vcf'', outdir = ''.''\<rparr> ex_vcf =
    Inr ([\<lparr>row_sample = ''SAMPLE1'', row_total = 4, row_variant = 2, row_sites = 3, row_vars = 2, row_hets = 1,
          prop_total = Fin (6004799503160661 / 18014398509481984), prop_vars = Fin (1/2)\<rparr>,
        \<lparr>row_sample = ''SAMPLE2'', row_total = 4, row_variant = 2, row_sites = 4, row_vars = 2, row_hets = 1,
          prop_total = Fin (1/4), prop_vars = Fin (1/2)\<rparr>,
        \<lparr>row_sample = ''SAMPLE3'', row_total = 4, row_variant = 2, row_sites = 3, row_vars = 1, row_hets = 1,
          prop_total = Fin (6004799503160661 / 18014398509481984), prop_vars = Fin 1\<rparr>],
       \<lparr>variant_frac = Fin (1/2), mean_hets = IntVal 1, median_hets = IntVal 1, sd_hets = Fin 0\<rparr>)"
    using ex_vcf_processed by (simp add: calc_main_def check_calc_args_def)
  have h: "mean_rat [1, 1, 1] = 1" "median_rat [1, 1, 1] = 1" by (simp_all add: mean_rat_def median_rat_def)
  show ?thesis using calc_main_mean_median [OF c ex_vcf_parsed] h by simp
qed

text \<open>
  C28 (roundtrip). What the filter prints when it ends normally: the two count lines,
  whose numbers (with their thousands separators removed) read back as \<open>nlocs\<close> and
  \<open>nsnps\<close>, followed by the warning exactly when the sampler clamped; the file it writes is
  the whitelist of the run.
\<close>
theorem filter_main_text_counts:
  assumes "filter_main_text ex rb args lines g = Some (Inr (msg, wl))"
  shows "\<exists>out n1 n2 rest. filter_main ex rb args lines g = Some (Inr out) \<and>
    wl = whitelist_file (whitelist_out out) \<and>
    msg = ''Total loci kept: '' @ n1 @ ''.'' @ [newline] @ ''Total SNPs kept: '' @ n2 @ ''.'' @ [newline] @ rest \<and>
    digits_val (filter is_digit n1) = nlocs out \<and> digits_val (filter is_digit n2) = nsnps out \<and>
    (rest \<noteq> [] \<longleftrightarrow> (\<exists>rows. whitelist_out out = Written True rows))"
proof -
  obtain out where o: "filter_main ex rb args lines g = Some (Inr out)"
    and m: "msg = filter_stdout args out" and w: "wl = whitelist_file (whitelist_out out)"
    using assms by (auto simp: filter_main_text_def res_simps)
  define rest where "rest = (case whitelist_out out of Written True _ \<Rightarrow> warning_msg (number_sites args) (nlocs out) | _ \<Rightarrow> [])"
  have "rest \<noteq> [] \<longleftrightarrow> (\<exists>rows. whitelist_out out = Written True rows)"
    by (cases "whitelist_out out") (auto simp: rest_def warning_msg_def split: bool.splits)
  then show ?thesis using o m w fmt_int_group_val
    by (intro exI [of _ out] exI [of _ "fmt_int_group (int (nlocs out))"] exI [of _ "fmt_int_group (int (nsnps out))"]
        exI [of _ rest]) (simp add: filter_stdout_def rest_def)
qed

theorem filter_main_text_counts_witness:
  "\<exists>out n1 n2 rest. filter_main (\<lambda>p. True) counter_rb \<lparr>sumstats = ''pop.sumstats.tsv'', n_populations = 2,
       number_sites = 1, hwe_arg = False, maf_arg = Fin 0, outd = ''.''\<rparr> ex_sumstats 0 = Some (Inr out) \<and>
    Some (''2'' @ [tab] @ ''3'' @ [newline]) = whitelist_file (whitelist_out out) \<and>
    ''Total loci kept: 2.'' @ [newline] @ ''Total SNPs kept: 2.'' @ [newline] =
      ''Total loci kept: '' @ n1 @ ''.'' @ [newline] @ ''Total SNPs kept: '' @ n2 @ ''.'' @ [newline] @ rest \<and>
    digits_val (filter is_digit n1) = nlocs out \<and> digits_val (filter is_digit n2) = nsnps out \<and>
    (rest \<noteq> [] \<longleftrightarrow> (\<exists>rows. whitelist_out out = Written True rows))"
proof -
  have "filter_main_text (\<lambda>p. True) counter_rb \<lparr>sumstats = ''pop.sumstats.tsv'', n_populations = 2,
       number_sites = 1, hwe_arg = False, maf_arg = Fin 0, outd = ''.''\<rparr> ex_sumstats 0 =
    Some (Inr (''Total loci kept: 2.'' @ [newline] @ ''Total SNPs kept: 2.'' @ [newline],
               Some (''2'' @ [tab] @ ''3'' @ [newline])))"
    by (simp add: filter_main_text_def ex_filter_run filter_stdout_def whitelist_file_def str_int_def fmt_eval)
  then show ?thesis by (rule filter_main_text_counts)
qed

text \<open>
  C29 (roundtrip). \<open>now()\<close> prints every valid clock reading with a four-digit year in
  exactly 19 characters, and the string reads back: split at the space, then at \<open>-\<close>
  and \<open>:\<close>, \<open>int()\<close> gives year, month, day, hour, minute and second.
\<close>
theorem now_str_roundtrip:
  assumes "datetime_ok dt"
  shows "length (now_str dt) = 19 \<and>
    (\<exists>d t. py_split (CHR '' '') (now_str dt) = [d, t] \<and>
       map py_int (py_split (CHR ''-'') d) = map (Inr \<circ> int) [dt_year dt, dt_month dt, dt_day dt] \<and>
       map py_int (py_split (CHR '':'') t) = map (Inr \<circ> int) [dt_hour dt, dt_minute dt, dt_second dt])"
proof -
  have b: "dt_month dt < 100" "dt_day dt < 100" "dt_hour dt < 100" "dt_minute dt < 100" "dt_second dt < 100"
    "10 ^ 3 \<le> dt_year dt" "dt_year dt < 10 ^ 4"
    using assms by (simp_all add: datetime_ok_def)
  have y: "length (str_nat (dt_year dt)) = 4"
    using length_str_nat_le [OF b(7)] length_str_nat_ge [OF b(6)] by simp
  note p = pad2_props [OF b(1)] pad2_props [OF b(2)] pad2_props [OF b(3)] pad2_props [OF b(4)] pad2_props [OF b(5)]
  define d where "d = str_nat (dt_year dt) @ CHR ''-'' # pad2 (dt_month dt) @ CHR ''-'' # pad2 (dt_day dt)"
  define t where "t = pad2 (dt_hour dt) @ CHR '':'' # pad2 (dt_minute dt) @ CHR '':'' # pad2 (dt_second dt)"
  have n: "now_str dt = d @ CHR '' '' # t" by (simp add: now_str_def d_def t_def)
  have "py_split (CHR '' '') (d @ CHR '' '' # t) = d # py_split (CHR '' '') t"
    by (rule py_split_append_sep) (simp add: d_def)
  moreover have "py_split (CHR '' '') t = [t]" by (rule py_split_no_sep) (simp add: t_def)
  ultimately have "py_split (CHR '' '') (now_str dt) = [d, t]" unfolding n by simp
  moreover have "py_split (CHR ''-'') d = [str_nat (dt_year dt), pad2 (dt_month dt), pad2 (dt_day dt)]"
    by (simp add: d_def py_split_append_sep py_split_no_sep)
  moreover have "py_split (CHR '':'') t = [pad2 (dt_hour dt), pad2 (dt_minute dt), pad2 (dt_second dt)]"
    by (simp add: t_def py_split_append_sep py_split_no_sep)
  moreover have "length (now_str dt) = 19" using y p by (simp add: n d_def t_def)
  ultimately show ?thesis using p by simp
qed

theorem now_str_roundtrip_witness:
  "length (now_str \<lparr>dt_year = 2026, dt_month = 1, dt_day = 2, dt_hour = 9, dt_minute = 5, dt_second = 0\<rparr>) = 19 \<and>
    (\<exists>d t. py_split (CHR '' '') (now_str \<lparr>dt_year = 2026, dt_month = 1, dt_day = 2, dt_hour = 9, dt_minute = 5,
         dt_second = 0\<rparr>) = [d, t] \<and>
       map py_int (py_split (CHR ''-'') d) = [Inr 2026, Inr 1, Inr 2] \<and>
       map py_int (py_split (CHR '':'') t) = [Inr 9, Inr 5, Inr 0])"
  using now_str_roundtrip [of "\<lparr>dt_year = 2026, dt_month = 1, dt_day = 2, dt_hour = 9, dt_minute = 5, dt_second = 0\<rparr>"]
  by (simp add: datetime_ok_def)

text \<open>
  C30 (bounds). The variant percentage the calculator prints with \<open>:.03%\<close> is a decimal
  with three digits after the point within half a unit of the last of them (plus
  \<open>2^-45\<close> for the two roundings of \<open>/\<close> and \<open>* 100\<close>) of the exact
  \<open>100 * variant_sites / total_sites\<close>.
\<close>
theorem summary_percent_near:
  assumes "parse_vcf ls = Inr t" "process_vcf ls = Inr (rows, s)" "summary_text t s = Inr out"
  shows "\<exists>pre pct post. out = pre @ '' ('' @ pct @ ''%) were variant sites.'' @ post \<and>
    decimal_near 3 pct (100 * of_nat (variant_sites t) / of_nat (total_sites t)) (1 / (2 * 10 ^ 3) + 1 / 2 ^ 45)"
proof -
  have inv: "tally_inv t" by (rule parse_vcf_tally_inv [OF assms(1)])
  have "summarise t = Inr s" using assms(1,2) by (auto simp: process_vcf_def het_report_def res_simps)
  then have f: "py_truediv (variant_sites t) (total_sites t) = Inr (variant_frac s)"
    by (auto simp: summarise_def res_simps)
  obtain pct where p: "fmt_percent 3 (variant_frac s) = pct @ ''%''"
    and n: "decimal_near 3 pct (100 * of_nat (variant_sites t) / of_nat (total_sites t)) (1 / (2 * 10 ^ 3) + 1 / 2 ^ 45)"
    using percent_near [OF f] inv by (auto simp: tally_inv_def)
  obtain m md where o: "out =
       ''Read a total of '' @ fmt_int_group (int (total_sites t)) @ '' sites in the VCF.'' @ [newline] @
       ''    A total of '' @ fmt_int_group (int (variant_sites t)) @ '' ('' @
         fmt_percent 3 (variant_frac s) @ '') were variant sites.'' @ [newline, newline] @
       ''Average heterozygous sites per individual:'' @ [newline] @
       ''    Mean:   '' @ m @ [newline] @ ''    Median: '' @ md @ [newline] @
       ''    StDev:  '' @ fmt_float True 3 (sd_hets s) @ [newline]"
    using assms(3) by (auto simp: summary_text_def res_simps)
  have "out = (''Read a total of '' @ fmt_int_group (int (total_sites t)) @ '' sites in the VCF.'' @
          [newline] @ ''    A total of '' @ fmt_int_group (int (variant_sites t))) @
        '' ('' @ pct @ ''%) were variant sites.'' @
        ([newline, newline] @ ''Average heterozygous sites per individual:'' @ [newline] @
          ''    Mean:   '' @ m @ [newline] @ ''    Median: '' @ md @ [newline] @
          ''    StDev:  '' @ fmt_float True 3 (sd_hets s) @ [newline])"
    by (simp add: o p)
  then show ?thesis using n by blast
qed

theorem summary_percent_near_witness:
  "\<exists>pre pct post. ''Read a total of 4 sites in the VCF.'' @ [newline] @
       ''    A total of 2 (50.000%) were variant sites.'' @ [newline, newline] @
       ''Average heterozygous sites per individual:'' @ [newline] @
       ''    Mean:   1.000'' @ [newline] @ ''    Median: 1.000'' @ [newline] @ ''    StDev:  0.000'' @ [newline] =
     pre @ '' ('' @ pct @ ''%) were variant sites.'' @ post \<and>
    decimal_near 3 pct (100 * 2 / 4) (1 / (2 * 10 ^ 3) + 1 / 2 ^ 45)"
proof -
  have "summary_text \<lparr>total_sites = 4, variant_sites = 2, per_indv_sites = [3, 4, 3], per_indv_vars = [2, 2, 1],
        per_indv_hets = [1, 1, 1], samples = [''SAMPLE1'', ''SAMPLE2'', ''SAMPLE3'']\<rparr>
      \<lparr>variant_frac = Fin (1/2), mean_hets = IntVal 1, median_hets = IntVal 1, sd_hets = Fin 0\<rparr> =
    Inr (''Read a total of 4 sites in the VCF.'' @ [newline] @
       ''    A total of 2 (50.000%) were variant sites.'' @ [newline, newline] @
       ''Average heterozygous sites per individual:'' @ [newline] @
       ''    Mean:   1.000'' @ [newline] @ ''    Median: 1.000'' @ [newline] @ ''    StDev:  0.000'' @ [newline])"
    by (simp add: summary_text_def fmt_eval float_eval py_int_float_def)
  from summary_percent_near [OF ex_vcf_parsed ex_vcf_processed this] show ?thesis by simp
qed

end
