(* ===== verification/Spec2Isabelle.thy ===== *)
theory Spec2Isabelle
  imports Prelude PyStr Genotype VcfTally PyFloat PyStats Sumstats PyDict Grouper Sampler HetReport Cli PyFormat Output
begin

text \<open>
  \<^bold>\<open>A verification library for the two scripts of Molecular_ecology_Manacus_HZ.\<close>

  The repository holds two independent command-line tools.
  \<^item> \<^verbatim>\<open>src/calculate_idnv_obs_het.py\<close> reads a multi-sample VCF line by line and
    tallies, per sample, the sites where its genotype is known, the variant ones among
    them, and the heterozygous ones among those (\<open>process_vcf\<close>, lines 89--178), using
    the genotype normaliser \<open>simplify_genotype_str\<close> and the classifiers
    \<open>is_genotype_missing\<close> and \<open>is_indv_heterozygous\<close> (lines 33--87).
  \<^item> \<^verbatim>\<open>src/filter_sumstats_to_whitelist.py\<close> reads a Stacks sumstats file, drops the
    records that fail a minor-allele-frequency or a Hardy-Weinberg cutoff, groups the
    remaining records of one SNP across populations and keeps the SNPs seen in exactly
    \<open>n_pops\<close> populations (\<open>parse_sumstats\<close>, lines 45--102); it then samples loci with
    \<open>random.sample\<close>, picks one column per locus with \<open>random.choice\<close> and writes the
    whitelist (\<open>sample_kept_sites\<close>, lines 105--116).

  \<^bold>\<open>Theories.\<close> Every theory is a shallow embedding: Python functions are HOL
  functions, state is passed explicitly as records, every exception the code can raise
  is a value \<open>Inl e\<close> of the result type \<open>'a res = py_error + 'a\<close>, loops are
  structural recursion over the lines or samples they iterate.
  \<^item> \<open>Prelude\<close>: the exceptions (\<open>py_error\<close>), \<open>rbind\<close>, \<open>assert\<close> and list indexing
    (\<open>py_index\<close>, \<open>py_list_set\<close>, \<open>py_incr\<close>: IndexError out of range).
  \<^item> \<open>PyStr\<close>: \<open>str.split\<close>, \<open>join\<close>, \<open>strip\<close>, \<open>startswith\<close>, \<open>isnumeric\<close>
    (ASCII digits), \<open>int(str)\<close> with whitespace, sign and underscores, and the decimal
    printing \<open>str_int\<close>; the lemmas give split/join and print/parse round trips.
  \<^item> \<open>Genotype\<close>: \<open>simplify_genotype_str\<close> (its allele loop is \<open>fill_alleles\<close>),
    \<open>is_genotype_missing\<close>, \<open>is_indv_heterozygous\<close>; genotypes are \<open>int option list\<close>
    with \<open>None\<close> for Python's \<open>None\<close>.
  \<^item> \<open>VcfTally\<close>: the tallies of \<open>process_vcf\<close> as the record \<open>vcf_tally\<close>, the header
    line (\<open>parse_header\<close>), one data line (\<open>tally_site\<close>, whose per-sample loop is
    \<open>tally_genotypes\<close>), the loop body (\<open>vcf_line\<close>) and the loop (\<open>vcf_lines\<close>,
    \<open>parse_vcf\<close>). Beside them an abstract specification: the data lines read as
    sites (\<open>read_sites\<close>) and counted by a fold (\<open>tally_spec\<close>).
  \<^item> \<open>PyFloat\<close>: binary64 values as \<open>Fin q | PInf | NInf | NaN\<close> with \<open>q\<close> a rational
    that is a double; \<open>float(str)\<close> and subtraction round to nearest, ties to even,
    with subnormals and overflow (\<open>double_of_ratio\<close>); comparisons follow IEEE (every
    comparison with NaN is false).
  \<^item> \<open>Sumstats\<close>: \<open>SumstatsSite\<close> as a record, the parse of one line, the SNP key string,
    the MAF filter (with the rounded \<open>1-p\<close>) and the HWE filter (with the double 0.05).
  \<^item> \<open>PyDict\<close>: insertion-ordered dictionaries as association lists (\<open>d[k]\<close>,
    \<open>d[k] = v\<close>, \<open>setdefault\<close>, \<open>keys()\<close>).
  \<^item> \<open>Grouper\<close>: the state \<open>(sites_dict, prev_snp, pops_in_site)\<close> of
    \<open>parse_sumstats\<close> as the record \<open>group_state\<close>; \<open>store_group\<close> (lines 88--92 and
    97--101), \<open>group_step\<close>, \<open>sumstats_line\<close>, \<open>sumstats_lines\<close>, \<open>flush_group\<close>,
    \<open>parse_sumstats\<close>. The abstract specification \<open>kept_spec\<close> says which records a
    key keeps.
  \<^item> \<open>Sampler\<close>: CPython 3.10's \<open>random.sample\<close> (\<open>py_sample\<close>: the pool branch
    \<open>pool_loop\<close>, the set branch \<open>set_loop\<close> and its redraw loop \<open>redraw\<close>, the
    \<open>setsize\<close> rule) and \<open>random.choice\<close>, over an abstract \<open>randbelow\<close> that is a
    parameter; then \<open>sample_kept_sites\<close>, whose result is what it writes.
  \<^item> \<open>PyStats\<close>: correctly rounded \<open>int / int\<close> (\<open>py_truediv\<close>), \<open>float(int)\<close>, and
    Python 3.10's \<open>statistics.mean\<close> and \<open>median\<close> (through \<open>_convert\<close>, which returns
    an int when the exact result is one) and \<open>stdev\<close>: \<open>variance\<close> with its
    StatisticsError, \<open>_ss\<close> on the int path (exact) and the float path (rounded deviations
    and squares, exact sums, the assertion \<open>not total < 0\<close>), and \<open>math.sqrt\<close> correctly
    rounded through an integer square root (\<open>isqrt\<close>, Heron's method with a
    \<open>termination\<close> measure).
  \<^item> \<open>HetReport\<close>: the report phase of \<open>process_vcf\<close> (lines 160--178): the rows of the
    output table (\<open>het_rows\<close>), the summary (\<open>summarise\<close>: variant fraction, mean,
    median and standard deviation of the heterozygous counts), and \<open>process_vcf\<close>
    itself, the loop followed by the report.
  \<^item> \<open>Cli\<close>: the checks that follow \<open>argparse\<close> in both scripts (\<open>check_filter_args\<close>
    for \<open>parse_args\<close>, \<open>check_calc_args\<close> for \<open>parse_command_line\<close>), with the file
    system as a predicate \<open>ex\<close> standing for \<open>os.path.exists\<close>, and the two \<open>main\<close>
    functions (\<open>filter_main\<close>, \<open>calc_main\<close>) that compose the components.
  \<^item> \<open>PyFormat\<close>: the format specifications the scripts print numbers with: \<open>,\<close> on an
    int, \<open>.08f\<close> and \<open>,.03f\<close> on a float (the exact binary value rounded half to even,
    \<open>round_half_even\<close>), \<open>,.03f\<close> on an int (converted to float first) and \<open>.03%\<close>.
  \<^item> \<open>Output\<close>: the text both scripts produce: \<open>per_individual_heterozygosity.tsv\<close>
    (\<open>het_header\<close>, \<open>het_row_line\<close>, \<open>het_file\<close>), what \<open>process_vcf\<close> prints
    (\<open>vcf_progress\<close>, \<open>summary_text\<close>, together \<open>process_vcf_text\<close>), the calculator's
    \<open>main\<close> with its banners (\<open>prog_name\<close>, \<open>calc_banner\<close>, \<open>calc_main_text\<close>; the two
    readings of the clock are parameters of the record type \<open>datetime\<close>, formatted by
    \<open>now_str\<close> and \<open>time_str\<close>), \<open>snp_whitelist.tsv\<close> (\<open>whitelist_file\<close>), the
    warning and the counts the filter prints (\<open>warning_msg\<close>, \<open>filter_stdout\<close>,
    \<open>filter_main_text\<close>); and readers of the two files (\<open>read_het_line\<close>,
    \<open>read_wl_line\<close>, \<open>decimal_near\<close>) that the round-trip lemmas use.

  \<^bold>\<open>What is proved.\<close>
  \<^item> The tally loop refines its specification: on a file of metadata lines, one header
    and data lines that read without exception, \<open>parse_vcf\<close> returns exactly
    \<open>tally_spec\<close> of the parsed sites (C1); otherwise it raises the exception of the first
    bad line (C12). Whatever the input, a returned tally satisfies
    \<open>het \<le> var \<le> genotyped \<le> total\<close> and \<open>var \<le> variant sites \<le> total\<close> per sample,
    with one counter per sample (C4).
  \<^item> The report: \<open>process_vcf\<close> succeeds exactly when there are two samples or more and
    each has a genotype at a variant site, provided samples times sites is at most
    \<open>2^49\<close> (C6); otherwise it raises ZeroDivisionError (C14) or StatisticsError (C15);
    every written proportion is a double in \<open>[0, 1]\<close> (C7); the standard deviation is
    \<open>0.0\<close> exactly when every sample has the same count (C23).
  \<^item> The output: the table reads back by lines, tabs and \<open>int()\<close> (C24); each printed
    proportion has eight decimals and is within half a unit of the last of them (plus the
    double's \<open>2^-53\<close>) of the exact ratio (C25). The calculator prints its summary
    without exception whenever it computed it, and the printed mean and median are
    within half a unit of their third decimal (plus \<open>2^-53\<close> relative) of the exact mean
    and median of the counts (C27). The filter's printed counts read back, without their
    thousands separators, as the numbers of loci and SNPs, and its warning line appears
    exactly when the sampler clamped (C28). The time stamps of the banners have 19
    characters and read back as the clock reading (C29). The printed variant percentage
    is within half a unit of its third decimal (plus \<open>2^-45\<close>) of the exact percentage
    (C30). The lemmas \<open>het_rows_midpoints\<close> and \<open>process_vcf_text_example\<close> evaluate the
    table at exact decimal midpoints (the digits are those of the double, rounded half to
    even) and the complete output of the example file.
  \<^item> The genotype normaliser: the heterozygosity assertion never fires on a normalised
    non-missing genotype (C10); printed diploid calls normalise back (C11); a missing
    allele is detected (C18); haploid and polyploid calls raise (C19, C21).
  \<^item> The grouper refines \<open>kept_spec\<close> when the records of a SNP are contiguous (C2), its
    dictionary is always well formed (C5), it raises AttributeError when no record
    passes (C13) and AssertionError on a cutoff outside \<open>[0, 0.5]\<close> (C20). The lemma
    \<open>parse_sumstats_two_phase\<close> shows its single loop equivalent to filtering the whole
    file first and grouping afterwards.
  \<^item> The filters in floating point: NaN passes both filters for every cutoff (C22); the
    lemma \<open>maf_filter_float_asymmetry\<close> shows that the MAF filter is not symmetric in
    \<open>p\<close> and \<open>1 - p\<close>.
  \<^item> The sampler returns, without exception, \<open>min(n_sites, loci)\<close> rows with strictly
    ascending loci and stored columns, and warns exactly when it clamps (C3), for a
    generator that eventually draws every value; with one that always draws 0 it runs
    forever (lemma \<open>sample_kept_sites_unfair\<close>), so the fairness hypothesis is needed.
  \<^item> The command-line layer: the filter's printed counts are the numbers of kept loci and
    SNPs (C8); without \<open>--vcf\<close> the calculator ends in TypeError, and a missing VCF is
    reported before the output directory is checked (C9); \<open>-o /\<close> is rejected (C16); a
    negative or NaN \<open>--maf\<close> reaches the assertion of \<open>parse_sumstats\<close> (C17).
  \<^item> Across components (below): the whitelist file of a normal run of the filter reads
    back as the sampled pairs, with strictly ascending loci kept by \<open>parse_sumstats\<close>,
    and the warning is printed exactly when the sampler clamps (C26).

  \<^bold>\<open>Bounds and loops.\<close> All loops of the scripts are over the lines of a file or the
  fields of a line and are structural recursion. The one loop that need not end is the
  redraw loop of \<open>random.sample\<close>'s set branch; it is a \<open>partial_function (option)\<close>,
  and C3 proves that it returns for every generator that is in range
  (\<open>rand_ok\<close>) and eventually draws every value (\<open>rand_fair\<close>); the example generator
  \<open>counter_rb\<close> satisfies both. No fuel is used. Heron's square root terminates by the
  measure of its current estimate. Integer division and \<open>float()\<close> overflow only beyond
  \<open>2^1024\<close>. C6 and C23 assume that samples times sites is at most \<open>2^49\<close> (over
  \<open>5 \<times> 10^14\<close>, far beyond any VCF): under it the rounding errors of the float path of
  \<open>_ss\<close> sum to less than its smallest non-zero exact value \<open>1/N\<close>, so its assertion
  never fires and a spread of counts never rounds to a zero deviation (\<open>stdev_budget\<close>,
  \<open>ss_total_lower\<close>).

  \<^bold>\<open>Not modelled.\<close> File and gzip I/O (the inputs are lists of lines, each ending in
  its newline as Python yields it), \<open>argparse\<close>'s parsing of \<open>sys.argv\<close> and its usage
  errors, \<open>os.path.exists\<close> (a parameter), the clock behind \<open>now()\<close> (its readings
  are parameters; their formatting is modelled), and the probability distribution of the generator (the properties hold
  for every generator, not only on average). On an exception the model returns the
  exception only, not the lines written or printed before it. The float \<open>repr\<close> in the
  MAF exit message is not modelled. \<open>(x - c) ** 2\<close> in \<open>_ss\<close> is the correctly rounded
  square; glibc's \<open>pow\<close> may differ from it by one unit in the last place on rare inputs,
  which can change the last bit of a non-zero standard deviation; the error budget behind
  C6 and C23 is computed for the correctly rounded square.
  \<open>clog4\<close> is the exact ceiling of the logarithm, where CPython computes
  \<open>_ceil(_log(k * 3, 4))\<close> in floating point; the two agree unless \<open>3k\<close> lies within
  rounding error of a power of 4, which needs astronomically large \<open>k\<close>. The sign of a
  negative zero is not modelled in formatting (the proportions are never negative).
  \<open>random.sample\<close> is CPython 3.10's: from 3.11 on it refuses
  the \<open>dict_keys\<close> the script passes it with TypeError.
\<close>

subsection \<open>Properties across components\<close>

text \<open>
  C26 (roundtrip). When the filter's \<open>main\<close> ends normally, what it leaves behind is
  determined by the dictionary \<open>parse_sumstats\<close> built: no whitelist file when no SNP was
  kept; otherwise \<open>snp_whitelist.tsv\<close> reads back (lines, tab, \<open>int()\<close>) as
  \<open>min(number_sites, nlocs)\<close> pairs with strictly ascending loci, each a
  \<open>(locus, column)\<close> kept in the dictionary, and the warning was printed exactly when
  more sites were asked for than loci were kept.
\<close>
theorem filter_main_whitelist_file:
  assumes "rand_ok rb" "rand_fair rb" "filter_main ex rb args lines g = Some (Inr out)"
  shows "\<exists>a d. check_filter_args ex args = Inr a \<and>
     parse_sumstats lines (n_populations a) (maf_arg a) (hwe_arg a) = Inr d \<and>
     (case whitelist_out out of
        NoOutput \<Rightarrow> nlocs out = 0
      | Written warned rows \<Rightarrow>
          (\<exists>txt ls. whitelist_file (whitelist_out out) = Some txt \<and> py_split newline txt = ls @ [[]] \<and>
             map read_wl_line ls = map Some rows \<and> length ls = min (nat (number_sites a)) (nlocs out) \<and>
             sorted_wrt (<) (map fst rows) \<and> (\<forall>(l, c) \<in> set rows. dict2_lookup d l c \<noteq> None) \<and>
             (warned \<longleftrightarrow> int (nlocs out) < number_sites a)))"
proof -
  obtain a d w g' where a: "check_filter_args ex args = Inr a"
    and d: "parse_sumstats lines (n_populations a) (maf_arg a) (hwe_arg a) = Inr d"
    and s: "sample_kept_sites rb d (number_sites a) g = Some (Inr (w, g'))"
    and o: "out = \<lparr>nlocs = length d, nsnps = count_snps d, whitelist_out = w\<rparr>"
    using filter_main_Inr [OF assms(3)] by blast
  show ?thesis
  proof (cases "d = []")
    case True
    then show ?thesis using a d s o by (simp add: sample_kept_sites_def)
  next
    case False
    have wf: "sites_wf d" by (rule parse_sumstats_sites_wf [OF d])
    have n: "0 \<le> number_sites a" using check_filter_args_sites [OF a] by simp
    obtain rows g2 where r: "sample_kept_sites rb d (number_sites a) g =
          Some (Inr (Written (int (length d) < number_sites a) rows, g2))"
      and p: "length rows = min (nat (number_sites a)) (length d)" "sorted_wrt (<) (map fst rows)"
        "\<forall>(l, c) \<in> set rows. dict2_lookup d l c \<noteq> None"
      using sample_kept_sites_rows [OF assms(1,2) wf False n] by blast
    have w: "w = Written (int (length d) < number_sites a) rows" using r s by simp
    obtain wl ls where t: "whitelist_file w = Some wl" "py_split newline wl = ls @ [[]]"
        "map read_wl_line ls = map Some rows"
      using whitelist_file_roundtrip [of "int (length d) < number_sites a" rows] w by blast
    have "length ls = length rows" using arg_cong [OF t(3), of length] by simp
    then show ?thesis using a d o w t p by auto
  qed
qed

theorem filter_main_whitelist_file_witness:
  "\<exists>a d. check_filter_args (\<lambda>p. True) \<lparr>sumstats = ''pop.sumstats.tsv'', n_populations = 2, number_sites = 1,
       hwe_arg = False, maf_arg = Fin 0, outd = ''.''\<rparr> = Inr a \<and>
     parse_sumstats ex_sumstats (n_populations a) (maf_arg a) (hwe_arg a) = Inr d \<and>
     (\<exists>txt ls. whitelist_file (Written False [(2, 3)]) = Some txt \<and> py_split newline txt = ls @ [[]] \<and>
        map read_wl_line ls = [Some (2, 3)] \<and> length ls = min (nat (number_sites a)) 2 \<and>
        sorted_wrt (<) (map fst [(2::int, 3::int)]) \<and> dict2_lookup d 2 3 \<noteq> None \<and>
        number_sites a \<le> 2)"
  using filter_main_whitelist_file [OF counter_rb_ok counter_rb_fair ex_filter_run] by (simp add: not_less)

end
